theory Spec2Isabelle
  imports Main
begin

section \<open>Configuration\<close>

text \<open>
  The fields of \<^verbatim>\<open>interface Config\<close> that the modelled functions read. They are JavaScript
  numbers produced by \<^verbatim>\<open>parseInt\<close>, so they may be zero or negative; they are integers here.
  \<^verbatim>\<open>openrouterApiKey\<close>, \<^verbatim>\<open>requestTimeout\<close> and \<^verbatim>\<open>maxTokens\<close> only travel inside the HTTP
  request and are left out.
\<close>

record Config =
  maxRetries :: int
  cacheTtl :: int
  maxCacheSize :: int
  maxTaskLength :: int
  maxContextLength :: int
  rateLimitRequests :: int
  rateLimitWindow :: int

section \<open>Rate limiter\<close>

text \<open>
  \<^verbatim>\<open>rateLimitTracker = new Map<string, { count: number; windowStart: number }>()\<close>.
  Only lookups and stores by key are made on it, so it is a partial function.
  \<^verbatim>\<open>Date.now()\<close> is the parameter \<open>now\<close>.
\<close>

record RateWindow =
  count :: int
  windowStart :: int

type_synonym RateLimitTracker = "string \<rightharpoonup> RateWindow"

definition checkRateLimit ::
  "Config \<Rightarrow> int \<Rightarrow> string \<Rightarrow> RateLimitTracker \<Rightarrow> bool \<times> RateLimitTracker" where
  "checkRateLimit cfg now clientId tracker =
     (case tracker clientId of
        None \<Rightarrow> (True, tracker(clientId \<mapsto> \<lparr>count = 1, windowStart = now\<rparr>))
      | Some clientData \<Rightarrow>
          if now - windowStart clientData > rateLimitWindow cfg
          then (True, tracker(clientId \<mapsto> \<lparr>count = 1, windowStart = now\<rparr>))
          else if count clientData \<ge> rateLimitRequests cfg
          then (False, tracker)
          else (True, tracker(clientId \<mapsto> clientData\<lparr>count := count clientData + 1\<rparr>)))"

text \<open>A run of requests of one client, at the given clock readings, oldest first.\<close>

fun checkRateLimits ::
  "Config \<Rightarrow> string \<Rightarrow> int list \<Rightarrow> RateLimitTracker \<Rightarrow> bool list \<times> RateLimitTracker" where
  "checkRateLimits cfg clientId [] tracker = ([], tracker)"
| "checkRateLimits cfg clientId (now # nows) tracker =
     (case checkRateLimit cfg now clientId tracker of
        (ok, tracker') \<Rightarrow>
          (case checkRateLimits cfg clientId nows tracker' of
             (oks, tracker'') \<Rightarrow> (ok # oks, tracker'')))"

section \<open>Response cache\<close>

text \<open>
  \<^verbatim>\<open>requestCache = new Map<string, { response; timestamp; accessCount }>()\<close>. The eviction
  loop walks the map in its iteration order, which for a JavaScript \<^verbatim>\<open>Map\<close> is the order of
  first insertion; the map is therefore a list of key/value pairs in that order. \<^verbatim>\<open>set\<close> on
  a key that is present replaces the value in place, otherwise it appends.
\<close>

record CacheEntry =
  response :: string
  timestamp :: int
  accessCount :: nat

text \<open>
  \<^verbatim>\<open>hitRate\<close> is recomputed from \<open>hits\<close> and \<open>totalRequests\<close> by
  \<^verbatim>\<open>updateCacheHitRate\<close> as a floating-point percentage; it is not stored here.
\<close>

record CacheMetrics =
  hits :: nat
  misses :: nat
  evictions :: nat
  totalRequests :: nat

type_synonym RequestCache = "(string \<times> CacheEntry) list"

fun Map_set :: "string \<Rightarrow> 'v \<Rightarrow> (string \<times> 'v) list \<Rightarrow> (string \<times> 'v) list" where
  "Map_set k v [] = [(k, v)]"
| "Map_set k v ((k', v') # kvs) =
     (if k' = k then (k, v) # kvs else (k', v') # Map_set k v kvs)"

definition Map_delete :: "string \<Rightarrow> (string \<times> 'v) list \<Rightarrow> (string \<times> 'v) list" where
  "Map_delete k kvs = filter (\<lambda>kv. fst kv \<noteq> k) kvs"

record ServerState =
  requestCache :: RequestCache
  cacheMetrics :: CacheMetrics
  rateLimitTracker :: RateLimitTracker

definition initialState :: ServerState where
  "initialState =
     \<lparr>requestCache = [],
      cacheMetrics = \<lparr>hits = 0, misses = 0, evictions = 0, totalRequests = 0\<rparr>,
      rateLimitTracker = Map.empty\<rparr>"

definition getCachedResponse ::
  "Config \<Rightarrow> int \<Rightarrow> string \<Rightarrow> ServerState \<Rightarrow> string option \<times> ServerState" where
  "getCachedResponse cfg now key st =
     (let m = (cacheMetrics st)\<lparr>totalRequests := totalRequests (cacheMetrics st) + 1\<rparr> in
      case map_of (requestCache st) key of
        Some cached \<Rightarrow>
          if now - timestamp cached < cacheTtl cfg
          then (Some (response cached),
                st\<lparr>cacheMetrics := m\<lparr>hits := hits m + 1\<rparr>,
                   requestCache :=
                     Map_set key (cached\<lparr>accessCount := accessCount cached + 1\<rparr>)
                       (requestCache st)\<rparr>)
          else (None,
                st\<lparr>cacheMetrics := m\<lparr>misses := misses m + 1\<rparr>,
                   requestCache := Map_delete key (requestCache st)\<rparr>)
      | None \<Rightarrow> (None, st\<lparr>cacheMetrics := m\<lparr>misses := misses m + 1\<rparr>\<rparr>))"

text \<open>
  The scan of \<^verbatim>\<open>evictLeastRecentlyUsed\<close>. Its three variables start as
  \<^verbatim>\<open>(null, Date.now(), Infinity)\<close>; \<open>None\<close> stands for \<^verbatim>\<open>null\<close> in the first
  component and for \<^verbatim>\<open>Infinity\<close> in the third.
\<close>

fun belowAccessCount :: "nat \<Rightarrow> nat option \<Rightarrow> bool" where
  "belowAccessCount n None = True"
| "belowAccessCount n (Some m) = (n < m)"

fun lruScan ::
  "RequestCache \<Rightarrow> string option \<times> int \<times> nat option \<Rightarrow> string option \<times> int \<times> nat option" where
  "lruScan [] acc = acc"
| "lruScan ((key, entry) # rest) (lruKey, lruTimestamp, lruAccessCount) =
     (if timestamp entry < lruTimestamp \<or>
         (timestamp entry = lruTimestamp \<and> belowAccessCount (accessCount entry) lruAccessCount)
      then lruScan rest (Some key, timestamp entry, Some (accessCount entry))
      else lruScan rest (lruKey, lruTimestamp, lruAccessCount))"

text \<open>\<^verbatim>\<open>if (lruKey)\<close> is a truthiness test: it fails for \<^verbatim>\<open>null\<close> and for the empty string.\<close>

definition evictLeastRecentlyUsed :: "int \<Rightarrow> ServerState \<Rightarrow> ServerState" where
  "evictLeastRecentlyUsed now st =
     (case lruScan (requestCache st) (None, now, None) of
        (Some lruKey, _, _) \<Rightarrow>
          if lruKey \<noteq> []
          then st\<lparr>cacheMetrics :=
                    (cacheMetrics st)\<lparr>evictions := evictions (cacheMetrics st) + 1\<rparr>,
                  requestCache := Map_delete lruKey (requestCache st)\<rparr>
          else st
      | (None, _, _) \<Rightarrow> st)"

text \<open>
  \<^verbatim>\<open>setCachedResponse\<close> reads the clock once in the eviction and once for the new entry's
  timestamp, within one synchronous call; both readings are \<open>now\<close>.
\<close>

definition setCachedResponse ::
  "Config \<Rightarrow> int \<Rightarrow> string \<Rightarrow> string \<Rightarrow> ServerState \<Rightarrow> ServerState" where
  "setCachedResponse cfg now key resp st =
     (let st' = (if int (length (requestCache st)) \<ge> maxCacheSize cfg
                 then evictLeastRecentlyUsed now st else st)
      in st'\<lparr>requestCache :=
               Map_set key \<lparr>response = resp, timestamp = now, accessCount = 1\<rparr>
                 (requestCache st')\<rparr>)"

text \<open>Sequences of cache operations, each with the clock reading at which it runs.\<close>

datatype CacheOp = Get string | Put string string

fun cacheOp :: "Config \<Rightarrow> int \<times> CacheOp \<Rightarrow> ServerState \<Rightarrow> ServerState" where
  "cacheOp cfg (now, Get key) st = snd (getCachedResponse cfg now key st)"
| "cacheOp cfg (now, Put key resp) st = setCachedResponse cfg now key resp st"

fun cacheOps :: "Config \<Rightarrow> (int \<times> CacheOp) list \<Rightarrow> ServerState \<Rightarrow> ServerState" where
  "cacheOps cfg [] st = st"
| "cacheOps cfg (op # ops) st = cacheOps cfg ops (cacheOp cfg op st)"

fun opKey :: "CacheOp \<Rightarrow> string" where
  "opKey (Get key) = key"
| "opKey (Put key resp) = key"

text \<open>
  Vocabulary for the eviction order and for the states a cache can be in. \<open>notAfter e e'\<close>:
  \<open>e\<close> is taken for eviction no later than \<open>e'\<close>, that is, it has the lower timestamp or,
  at equal timestamps, an access count that is not higher. \<open>cacheInv cfg now st\<close>: the
  keys of the cache are pairwise different and not empty, no entry is stamped later than
  \<open>now\<close>, and the cache holds at most \<open>maxCacheSize\<close> entries.
\<close>

definition notAfter :: "CacheEntry \<Rightarrow> CacheEntry \<Rightarrow> bool" where
  "notAfter e e' =
     (timestamp e < timestamp e' \<or> (timestamp e = timestamp e' \<and> accessCount e \<le> accessCount e'))"

definition cacheInv :: "Config \<Rightarrow> int \<Rightarrow> ServerState \<Rightarrow> bool" where
  "cacheInv cfg now st =
     (distinct (map fst (requestCache st))
      \<and> (\<forall>kv\<in>set (requestCache st). fst kv \<noteq> [] \<and> timestamp (snd kv) \<le> now)
      \<and> int (length (requestCache st)) \<le> maxCacheSize cfg)"

section \<open>Provider tables\<close>

text \<open>
  The object literals \<^verbatim>\<open>MODELS\<close>, \<^verbatim>\<open>MODEL_NAMES\<close> and \<^verbatim>\<open>ROUTING_STRATEGIES\<close>, as
  lists of pairs in the order of their keys (the order of \<^verbatim>\<open>Object.keys\<close>). Of
  \<^verbatim>\<open>ROUTING_STRATEGIES\<close> only the keys are read.
\<close>

definition MODELS :: "(string \<times> string) list" where
  "MODELS =
     [(''deepseek'', ''deepseek/deepseek-chat-v3-0324''),
      (''google'', ''google/gemini-2.5-pro''),
      (''openai'', ''openai/o3''),
      (''router'', ''openai/gpt-4o-mini'')]"

definition MODEL_NAMES :: "(string \<times> string) list" where
  "MODEL_NAMES =
     [(''deepseek'', ''DeepSeek AI''),
      (''google'', ''Google Gemini''),
      (''openai'', ''OpenAI GPT''),
      (''router'', ''GPT-4.1-Mini Router'')]"

definition ROUTING_STRATEGIES :: "string list" where
  "ROUTING_STRATEGIES =
     [''auto'', ''intelligence'', ''cost'', ''balance'', ''all'',
      ''deepseek'', ''google'', ''openai'']"

text \<open>A property read \<^verbatim>\<open>table[key]\<close>; a missing key reads as \<^verbatim>\<open>undefined\<close>.\<close>

definition lookupOrUndefined :: "(string \<times> string) list \<Rightarrow> string \<Rightarrow> string" where
  "lookupOrUndefined table key =
     (case map_of table key of Some v \<Rightarrow> v | None \<Rightarrow> ''undefined'')"

section \<open>Errors and the HTTP collaborator\<close>

text \<open>
  What the code throws: an \<^verbatim>\<open>AxiosError\<close> (with the status and status text of its response,
  when it has one, and its message), any other \<^verbatim>\<open>Error\<close> (its message), and the
  repository's own \<^verbatim>\<open>SmartAdvisorError\<close> (message, code, cause).
\<close>

datatype Thrown =
    AxiosError "(int \<times> string) option" string
  | Error string
  | SmartAdvisorError string string "Thrown option"

fun message :: "Thrown \<Rightarrow> string" where
  "message (AxiosError resp msg) = msg"
| "message (Error msg) = msg"
| "message (SmartAdvisorError msg code cause) = msg"

fun code :: "Thrown \<Rightarrow> string option" where
  "code (SmartAdvisorError msg c cause) = Some c"
| "code _ = None"

fun cause :: "Thrown \<Rightarrow> Thrown option" where
  "cause (SmartAdvisorError msg c e) = e"
| "cause _ = None"

text \<open>
  One \<^verbatim>\<open>axios.post\<close>: it resolves with a body whose
  \<^verbatim>\<open>choices[0]?.message?.content\<close> is a string or is absent, or it rejects with an
  \<^verbatim>\<open>AxiosError\<close> (HTTP error statuses, network errors, timeouts), or something else is
  thrown on the way (a body without \<^verbatim>\<open>choices\<close>, for one).
\<close>

datatype HttpOutcome =
    Replied "string option"
  | AxiosFailed "(int \<times> string) option" string
  | Failed string

text \<open>
  \<^verbatim>\<open>callOpenRouter\<close>, given the outcome of its request. \<^verbatim>\<open>x || 'No response received'\<close>
  replaces an absent and an empty content.
\<close>

fun callOpenRouter :: "HttpOutcome \<Rightarrow> Thrown + string" where
  "callOpenRouter (Replied None) = Inr ''No response received''"
| "callOpenRouter (Replied (Some content)) =
     (if content = [] then Inr ''No response received'' else Inr content)"
| "callOpenRouter (AxiosFailed resp msg) = Inl (AxiosError resp msg)"
| "callOpenRouter (Failed msg) = Inl (Error msg)"

text \<open>Decimal rendering of numbers inside template literals.\<close>

function showNat :: "nat \<Rightarrow> string" where
  "showNat n =
     (if n < 10 then [char_of (48 + n)]
      else showNat (n div 10) @ [char_of (48 + n mod 10)])"
  by pat_completeness auto
termination
  by (relation "measure id") auto

declare showNat.simps [simp del]

definition showInt :: "int \<Rightarrow> string" where
  "showInt i = (if i < 0 then CHR ''-'' # showNat (nat (- i)) else showNat (nat i))"

section \<open>Retrying dispatcher\<close>

text \<open>
  The test \<^verbatim>\<open>error instanceof AxiosError && error.response?.status && status >= 400 && status < 500\<close>.
\<close>

fun clientErrorStatus :: "Thrown \<Rightarrow> (int \<times> string) option" where
  "clientErrorStatus (AxiosError (Some (status, statusText)) msg) =
     (if status \<noteq> 0 \<and> status \<ge> 400 \<and> status < 500 then Some (status, statusText) else None)"
| "clientErrorStatus _ = None"

text \<open>
  The result of a dispatch together with what it did on the way: how many requests it
  posted and the delays it waited between them, in milliseconds.
\<close>

record Dispatch =
  outcome :: "Thrown + string"
  posts :: nat
  delays :: "int list"

text \<open>
  The loop of \<^verbatim>\<open>callOpenRouterWithRetry\<close> from \<^verbatim>\<open>attempt\<close> on. \<open>call n\<close> is the outcome of
  the request posted by attempt \<open>n\<close>; \<open>waited\<close> are the delays so far.
\<close>

function retryFrom ::
  "Config \<Rightarrow> (nat \<Rightarrow> HttpOutcome) \<Rightarrow> nat \<Rightarrow> Thrown option \<Rightarrow> int list \<Rightarrow> Dispatch" where
  "retryFrom cfg call attempt lastError waited =
     (if int attempt < maxRetries cfg then
        (case callOpenRouter (call attempt) of
           Inr text \<Rightarrow> \<lparr>outcome = Inr text, posts = attempt + 1, delays = waited\<rparr>
         | Inl error \<Rightarrow>
             (case clientErrorStatus error of
                Some (status, statusText) \<Rightarrow>
                  \<lparr>outcome = Inl (SmartAdvisorError
                       (''OpenRouter client error: '' @ showInt status @ '' '' @ statusText)
                       ''CLIENT_ERROR'' (Some error)),
                   posts = attempt + 1, delays = waited\<rparr>
              | None \<Rightarrow>
                  retryFrom cfg call (attempt + 1) (Some error)
                    (if int attempt < maxRetries cfg - 1
                     then waited @ [2 ^ attempt * 1000] else waited)))
      else
        \<lparr>outcome = Inl (SmartAdvisorError
             (''Failed after '' @ showInt (maxRetries cfg) @ '' attempts: '' @
                (case lastError of Some e \<Rightarrow> message e | None \<Rightarrow> ''undefined''))
             ''MAX_RETRIES_EXCEEDED'' lastError),
         posts = attempt, delays = waited\<rparr>)"
  by pat_completeness auto
termination
  by (relation "measure (\<lambda>(cfg, call, attempt, lastError, waited). nat (maxRetries cfg - int attempt))")
    auto

declare retryFrom.simps [simp del]

definition callOpenRouterWithRetry :: "Config \<Rightarrow> (nat \<Rightarrow> HttpOutcome) \<Rightarrow> Dispatch" where
  "callOpenRouterWithRetry cfg call = retryFrom cfg call 0 None []"

text \<open>
  Vocabulary for the runs of the dispatcher: what a request throws, whether its failure is
  one the loop retries (anything thrown that is not an HTTP 4xx), and the delays of \<open>k\<close>
  retries, \<^verbatim>\<open>Math.pow(2, attempt) * 1000\<close> milliseconds after attempt \<open>0, \<dots>, k - 1\<close>.
\<close>

definition thrownBy :: "HttpOutcome \<Rightarrow> Thrown option" where
  "thrownBy out = (case callOpenRouter out of Inl e \<Rightarrow> Some e | Inr answer \<Rightarrow> None)"

definition transient :: "HttpOutcome \<Rightarrow> bool" where
  "transient out =
     (case callOpenRouter out of Inl e \<Rightarrow> clientErrorStatus e = None | Inr answer \<Rightarrow> False)"

definition backoff :: "nat \<Rightarrow> int list" where
  "backoff k = map (\<lambda>attempt. 2 ^ attempt * 1000) [0..<k]"

section \<open>Validation and sanitisation\<close>

text \<open>
  A JavaScript string is modelled by the list of its code units, for code units below 256.
  \<open>isControl\<close> is the class \<^verbatim>\<open>[\x00-\x08\x0B\x0C\x0E-\x1F\x7F]\<close> and \<open>isSpace\<close> is \<^verbatim>\<open>\s\<close>
  in that range.
\<close>

definition isControl :: "char \<Rightarrow> bool" where
  "isControl c =
     (let n = (of_char c :: nat) in n \<le> 8 \<or> n = 11 \<or> n = 12 \<or> (14 \<le> n \<and> n \<le> 31) \<or> n = 127)"

definition isSpace :: "char \<Rightarrow> bool" where
  "isSpace c = ((of_char c :: nat) \<in> {9, 10, 11, 12, 13, 32, 160})"

function collapseSpaces :: "string \<Rightarrow> string" where
  "collapseSpaces [] = []"
| "collapseSpaces (c # cs) =
     (if isSpace c then CHR '' '' # collapseSpaces (dropWhile isSpace cs)
      else c # collapseSpaces cs)"
  by pat_completeness auto
termination
  by (relation "measure length") (auto simp: length_dropWhile_le less_Suc_eq_le)

definition trim :: "string \<Rightarrow> string" where
  "trim s = rev (dropWhile isSpace (rev (dropWhile isSpace s)))"

definition toLowerCase :: "string \<Rightarrow> string" where
  "toLowerCase s =
     map (\<lambda>c. let n = (of_char c :: nat) in
            if (65 \<le> n \<and> n \<le> 90) \<or> (192 \<le> n \<and> n \<le> 222 \<and> n \<noteq> 215)
            then char_of (n + 32) else c) s"

definition sanitizeInput :: "string \<Rightarrow> string" where
  "sanitizeInput input = trim (collapseSpaces (filter (\<lambda>c. \<not> isControl c) input))"

text \<open>
  What one invocation of \<^verbatim>\<open>callTool\<close> meets outside the server object: the HTTP outcomes
  (\<open>http m n\<close> is the outcome of the request that attempt \<open>n\<close> of a dispatch posts for model
  identifier \<open>m\<close>), the clock readings at the rate-limit check, at the cache lookup and at
  the cache store, and the two regular-expression scans of \<^verbatim>\<open>validateInput\<close>
  (\<open>scriptInjection s\<close>: some pattern of \<^verbatim>\<open>scriptInjectionPatterns\<close> matches \<open>s\<close>;
  \<open>promptInjection s\<close>: some pattern of \<^verbatim>\<open>promptInjectionPatterns\<close> does).
\<close>

record Env =
  http :: "string \<Rightarrow> nat \<Rightarrow> HttpOutcome"
  nowRateLimit :: int
  nowCacheGet :: int
  nowCacheSet :: int
  scriptInjection :: "string \<Rightarrow> bool"
  promptInjection :: "string \<Rightarrow> bool"

record ValidationResult =
  isValid :: bool
  error :: "string option"

definition validateInput :: "Config \<Rightarrow> Env \<Rightarrow> string \<Rightarrow> string \<Rightarrow> ValidationResult" where
  "validateInput cfg env task context =
     (if int (length task) > maxTaskLength cfg then
        \<lparr>isValid = False,
         error = Some (''Task exceeds maximum length of '' @ showInt (maxTaskLength cfg) @
                       '' characters'')\<rparr>
      else if int (length context) > maxContextLength cfg then
        \<lparr>isValid = False,
         error = Some (''Context exceeds maximum length of '' @ showInt (maxContextLength cfg) @
                       '' characters'')\<rparr>
      else if scriptInjection env (task @ '' '' @ context) then
        \<lparr>isValid = False, error = Some ''Input contains potentially malicious script content''\<rparr>
      else if promptInjection env (task @ '' '' @ context) then
        \<lparr>isValid = False, error = Some ''Input contains potential prompt injection patterns''\<rparr>
      else \<lparr>isValid = True, error = None\<rparr>)"

section \<open>Strategy router\<close>

text \<open>
  \<^verbatim>\<open>routeToOptimalProvider\<close>. The routing prompt only travels inside the request; the
  answer of the routing model is the outcome of attempt 0 for \<^verbatim>\<open>MODELS.router\<close>. The second
  component lists the model identifiers posted to.
\<close>

definition routeToOptimalProvider :: "Env \<Rightarrow> string \<Rightarrow> string \<times> string list" where
  "routeToOptimalProvider env strategy =
     (if strategy = ''intelligence'' then (''openai'', [])
      else if strategy = ''cost'' then (''deepseek'', [])
      else if strategy = ''balance'' then (''google'', [])
      else if strategy = ''all'' then (''all'', [])
      else if strategy = ''deepseek'' \<or> strategy = ''google'' \<or> strategy = ''openai''
      then (strategy, [])
      else if strategy = ''auto'' then
        (case callOpenRouter (http env (lookupOrUndefined MODELS ''router'') 0) of
           Inr routingDecision \<Rightarrow>
             (let cleanDecision = trim (toLowerCase routingDecision) in
              if cleanDecision \<in> set [''deepseek'', ''google'', ''openai'']
              then (cleanDecision, [lookupOrUndefined MODELS ''router''])
              else (''google'', [lookupOrUndefined MODELS ''router'']))
         | Inl e \<Rightarrow> (''google'', [lookupOrUndefined MODELS ''router'']))
      else (''google'', []))"

section \<open>Fan-out\<close>

text \<open>
  One element of the \<^verbatim>\<open>results\<close> array of \<^verbatim>\<open>consultAllAdvisors\<close>. Its \<^verbatim>\<open>duration\<close> is only
  logged and is left out.
\<close>

record AdvisorResult =
  modelKey :: string
  advisorResponse :: "string option"
  advisorError :: "string option"
  success :: bool

fun joinWith :: "string \<Rightarrow> string list \<Rightarrow> string" where
  "joinWith sep [] = []"
| "joinWith sep [x] = x"
| "joinWith sep (x # y # ys) = x @ sep @ joinWith sep (y # ys)"

text \<open>
  The fixed text of \<^verbatim>\<open>formatMultiAdvisorResponse\<close>. The emoji of the source are left out and
  its divider character, a box-drawing double line, is written \<open>=\<close>.
\<close>

definition divider :: string where
  "divider = replicate 80 (CHR ''='')"

definition consultationHeader :: string where
  "consultationHeader =
     ''# Multi-Advisor Consultation Results\<newline>\<newline>'' @
     ''**What you're seeing:** Three experienced AI advisors have independently analyzed '' @
     ''your request. Consider their perspectives to find the most practical and efficient '' @
     ''solution.\<newline>\<newline>''"

definition errorNote :: "AdvisorResult list \<Rightarrow> string" where
  "errorNote failedResults =
     ''**Note:** '' @ showNat (length failedResults) @ '' advisor(s) encountered errors: '' @
     joinWith '', '' (map (\<lambda>r. lookupOrUndefined MODEL_NAMES (modelKey r)) failedResults) @
     ''\<newline>\<newline>''"

definition advisorSection :: "AdvisorResult \<Rightarrow> string" where
  "advisorSection result =
     divider @ ''\<newline>## **'' @ lookupOrUndefined MODEL_NAMES (modelKey result) @
     '' Advisor** ('' @ modelKey result @ '')\<newline>'' @ divider @ ''\<newline>\<newline>'' @
     (case advisorResponse result of Some r \<Rightarrow> r | None \<Rightarrow> ''undefined'') @
     ''\<newline>\<newline>''"

definition synthesis :: "nat \<Rightarrow> string" where
  "synthesis n =
     divider @ ''\<newline>## **Synthesis & Next Steps**\<newline>'' @ divider @ ''\<newline>\<newline>'' @
     ''**You now have '' @ showNat n @ '' expert perspectives.** Here's how to proceed:'' @
     ''\<newline>\<newline>'' @
     ''1. **Compare Approaches:** Look for common themes and fundamental differences '' @
     ''between the advisors\<newline>'' @
     ''2. **Identify Best Practices:** Note which advisor provides the most actionable, '' @
     ''maintainable solution\<newline>'' @
     ''3. **Consider Trade-offs:** Each advisor may emphasize different aspects '' @
     ''(performance, simplicity, scalability)\<newline>'' @
     ''4. **Choose Your Path:** Select the approach that best fits your project's '' @
     ''constraints and goals\<newline>'' @
     ''5. **Implement Iteratively:** Start with the core solution and incorporate '' @
     ''refinements from other advisors\<newline>\<newline>'' @
     ''**Remember:** The best solution often combines insights from multiple perspectives. '' @
     ''Consider what each advisor got right and adapt accordingly.\<newline>''"

definition formatMultiAdvisorResponse :: "AdvisorResult list \<Rightarrow> string" where
  "formatMultiAdvisorResponse results =
     (let successfulResults = filter (\<lambda>r. success r) results;
          failedResults = filter (\<lambda>r. \<not> success r) results
      in consultationHeader @
         (if length failedResults > 0 then errorNote failedResults else []) @
         concat (map advisorSection successfulResults) @
         (if length successfulResults > 1 then synthesis (length successfulResults) else []))"

text \<open>
  The test \<^verbatim>\<open>if (cached)\<close> on a \<^verbatim>\<open>string | null\<close>: it fails for \<^verbatim>\<open>null\<close> and for the empty
  string.
\<close>

fun truthy :: "string option \<Rightarrow> string option" where
  "truthy None = None"
| "truthy (Some []) = None"
| "truthy (Some (c # cs)) = Some (c # cs)"

text \<open>
  The body of the \<^verbatim>\<open>modelKeys.map\<close> callback of \<^verbatim>\<open>consultAllAdvisors\<close>: one dispatch, whose
  failure is caught and recorded by its message.
\<close>

definition consultAdvisor :: "Config \<Rightarrow> Env \<Rightarrow> string \<times> string \<Rightarrow> AdvisorResult \<times> string list" where
  "consultAdvisor cfg env km =
     (let d = callOpenRouterWithRetry cfg (http env (snd km)) in
      (case outcome d of
         Inr r \<Rightarrow> \<lparr>modelKey = fst km, advisorResponse = Some r, advisorError = None,
                   success = True\<rparr>
       | Inl e \<Rightarrow> \<lparr>modelKey = fst km, advisorResponse = None,
                   advisorError = Some (message e), success = False\<rparr>,
       replicate (posts d) (snd km)))"

text \<open>
  \<^verbatim>\<open>consultAllAdvisors\<close>. The dispatches run concurrently in the source; none of them reads
  or writes the server object, so they are taken one after the other, in the order of
  \<^verbatim>\<open>Object.keys(MODELS)\<close>. Every callback catches what its dispatch throws, so every promise
  is fulfilled and the branch for a rejected promise is not taken. The result is the tool
  result (its text, or what is thrown), the new state and the model identifiers posted to.
\<close>

definition consultAllAdvisors ::
  "Config \<Rightarrow> Env \<Rightarrow> string \<Rightarrow> string \<Rightarrow> string \<Rightarrow> ServerState
     \<Rightarrow> (Thrown + string) \<times> ServerState \<times> string list" where
  "consultAllAdvisors cfg env task context toolName st =
     (let cacheKey = ''all:'' @ task @ '':'' @ context @ '':'' @ toolName in
      case getCachedResponse cfg (nowCacheGet env) cacheKey st of
        (cached, st1) \<Rightarrow>
          (case truthy cached of
             Some text \<Rightarrow> (Inr text, st1, [])
           | None \<Rightarrow>
               (let advised = map (consultAdvisor cfg env) MODELS;
                    formattedResponse = formatMultiAdvisorResponse (map fst advised)
                in (Inr formattedResponse,
                    setCachedResponse cfg (nowCacheSet env) cacheKey formattedResponse st1,
                    concat (map snd advised)))))"

section \<open>The tool entry point\<close>

text \<open>
  The arguments of a tool call, \<^verbatim>\<open>{ model: string; task: string; context?: string }\<close>;
  \<open>context'\<close> is its \<^verbatim>\<open>context\<close>.
\<close>

record ToolArgs =
  model :: string
  task :: string
  context' :: "string option"

definition validTools :: "string list" where
  "validTools =
     [''smart_advisor'', ''code_review'', ''get_advice'', ''expert_opinion'', ''smart_llm'',
      ''ask_expert'', ''review_code'']"

text \<open>
  \<^verbatim>\<open>${rateLimitWindow / 1000}\<close>: the quotient printed as JavaScript prints it, with up to
  three decimals and no trailing zeros.
\<close>

definition showThousandths :: "int \<Rightarrow> string" where
  "showThousandths i =
     (let a = nat \<bar>i\<bar>; r = a mod 1000;
          ds = [char_of (48 + r div 100), char_of (48 + r div 10 mod 10), char_of (48 + r mod 10)]
      in (if i < 0 then ''-'' else []) @ showNat (a div 1000) @
         (if r = 0 then [] else ''.'' @ rev (dropWhile (\<lambda>c. c = CHR ''0'') (rev ds))))"

text \<open>
  The last part of \<^verbatim>\<open>callTool\<close>, from the cache key on: what it does once a single provider
  is selected. \<open>routed\<close> are the model identifiers posted to before (the routing call of
  the \<^verbatim>\<open>auto\<close> strategy). What \<^verbatim>\<open>callOpenRouterWithRetry\<close> throws is rethrown if it is a
  \<^verbatim>\<open>SmartAdvisorError\<close> and wrapped as \<^verbatim>\<open>API_ERROR\<close> otherwise.
\<close>

definition answerFromProvider ::
  "Config \<Rightarrow> Env \<Rightarrow> string \<Rightarrow> string \<Rightarrow> string \<Rightarrow> string list \<Rightarrow> ServerState
     \<Rightarrow> (Thrown + string) \<times> ServerState \<times> string list" where
  "answerFromProvider cfg env selectedProvider sanitizedTask sanitizedContext routed st0 =
     (let cacheKey = selectedProvider @ '':'' @ sanitizedTask @ '':'' @ sanitizedContext in
      case getCachedResponse cfg (nowCacheGet env) cacheKey st0 of
        (cached, st1) \<Rightarrow>
          (case truthy cached of
             Some answer \<Rightarrow> (Inr answer, st1, routed)
           | None \<Rightarrow>
               (let providerModel = lookupOrUndefined MODELS selectedProvider;
                    d = callOpenRouterWithRetry cfg (http env providerModel);
                    posted = routed @ replicate (posts d) providerModel
                in case outcome d of
                     Inr answer \<Rightarrow>
                       (Inr answer,
                        setCachedResponse cfg (nowCacheSet env) cacheKey answer st1, posted)
                   | Inl e \<Rightarrow>
                       (case e of
                          SmartAdvisorError msg c cs \<Rightarrow> (Inl e, st1, posted)
                        | _ \<Rightarrow>
                            (Inl (SmartAdvisorError (''OpenRouter API error: '' @ message e)
                               ''API_ERROR'' (Some e)), st1, posted)))))"

text \<open>
  \<^verbatim>\<open>callTool\<close>. \<^verbatim>\<open>checkRateLimit()\<close> is called without an argument, so its parameter takes
  the default \<^verbatim>\<open>'default'\<close>. The result is the tool result (its text, or what is thrown),
  the new state and the model identifiers posted to, in order.
\<close>

definition callTool ::
  "Config \<Rightarrow> Env \<Rightarrow> string \<Rightarrow> ToolArgs \<Rightarrow> ServerState
     \<Rightarrow> (Thrown + string) \<times> ServerState \<times> string list" where
  "callTool cfg env name args st =
     (case checkRateLimit cfg (nowRateLimit env) ''default'' (rateLimitTracker st) of
        (admitted, tracker') \<Rightarrow>
     let st0 = st\<lparr>rateLimitTracker := tracker'\<rparr> in
     if \<not> admitted then
       (Inl (SmartAdvisorError
          (''Rate limit exceeded. Maximum '' @ showInt (rateLimitRequests cfg) @
           '' requests per '' @ showThousandths (rateLimitWindow cfg) @ '' seconds'')
          ''RATE_LIMIT_EXCEEDED'' None), st0, [])
     else if name \<notin> set validTools then
       (Inl (SmartAdvisorError (''Unknown tool: '' @ name) ''UNKNOWN_TOOL'' None), st0, [])
     else
     let ctx = (case context' args of Some c \<Rightarrow> c | None \<Rightarrow> []);
         validation = validateInput cfg env (task args) ctx in
     if \<not> isValid validation then
       (Inl (SmartAdvisorError
          (case error validation of Some e \<Rightarrow> e | None \<Rightarrow> ''undefined'')
          ''INVALID_INPUT'' None), st0, [])
     else
     let sanitizedTask = sanitizeInput (task args);
         sanitizedContext = sanitizeInput ctx in
     if model args \<notin> set ROUTING_STRATEGIES then
       (Inl (SmartAdvisorError
          (''Unknown routing strategy: '' @ model args @ ''. Available: '' @
           joinWith '', '' ROUTING_STRATEGIES)
          ''UNKNOWN_STRATEGY'' None), st0, [])
     else
     (case routeToOptimalProvider env (model args) of
        (selectedProvider, routed) \<Rightarrow>
     if selectedProvider = ''all'' then
       (case consultAllAdvisors cfg env sanitizedTask sanitizedContext name st0 of
          (res, st1, posted) \<Rightarrow> (res, st1, routed @ posted))
     else if selectedProvider \<notin> set (filter (\<lambda>k. k \<noteq> ''router'') (map fst MODELS)) then
       (Inl (SmartAdvisorError (''Invalid provider selection: '' @ selectedProvider)
          ''INVALID_PROVIDER'' None), st0, routed)
     else
       answerFromProvider cfg env selectedProvider sanitizedTask sanitizedContext routed st0))"

section \<open>Vocabulary of the properties of the entry point\<close>

text \<open>
  The machine-readable kind of a tool result that is an error, and the cache key that
  \<^verbatim>\<open>callTool\<close> builds for a single-provider request
  (\<^verbatim>\<open>`${selectedProvider}:${sanitizedTask}:${sanitizedContext}`\<close>).
\<close>

definition thrownCode :: "Thrown + string \<Rightarrow> string option" where
  "thrownCode res = (case res of Inl e \<Rightarrow> code e | Inr answer \<Rightarrow> None)"

definition cacheKeyOf :: "Env \<Rightarrow> ToolArgs \<Rightarrow> string" where
  "cacheKeyOf env args =
     fst (routeToOptimalProvider env (model args)) @ '':'' @ sanitizeInput (task args) @ '':'' @
     sanitizeInput (case context' args of Some c \<Rightarrow> c | None \<Rightarrow> [])"

text \<open>
  Modelled from the spec: the state of a provider's circuit breaker (section 3,
  CircuitState, and section 4.4), which the source does not declare: one of \<open>CLOSED\<close>,
  \<open>OPEN\<close>, \<open>HALF_OPEN\<close>, with a consecutive-failure counter and the time of the last state
  change. A breaker rejects calls while it is \<open>OPEN\<close> and
  \<open>now - lastTransitionTime < recoveryTimeout\<close>.
\<close>

datatype CircuitState = CLOSED | OPEN | HALF_OPEN

record CircuitBreaker =
  circuitState :: CircuitState
  consecutiveFailures :: nat
  lastTransitionTime :: int

definition rejectsCalls :: "int \<Rightarrow> int \<Rightarrow> CircuitBreaker \<Rightarrow> bool" where
  "rejectsCalls recoveryTimeout now breaker =
     (circuitState breaker = OPEN \<and> now - lastTransitionTime breaker < recoveryTimeout)"

section \<open>Concrete configurations and environments\<close>

definition cfg0 :: Config where
  "cfg0 =
     \<lparr>maxRetries = 3, cacheTtl = 300000, maxCacheSize = 2, maxTaskLength = 10000,
      maxContextLength = 20000, rateLimitRequests = 2, rateLimitWindow = 60000\<rparr>"

text \<open>Three providers: two timeouts then an answer; a 503 then a 401; timeouts only.\<close>

definition flakyThenOk :: "nat \<Rightarrow> HttpOutcome" where
  "flakyThenOk n = (if n < 2 then Failed ''timeout'' else Replied (Some ''ok''))"

definition unauthorized :: "nat \<Rightarrow> HttpOutcome" where
  "unauthorized n =
     (if n = 0 then AxiosFailed (Some (503, ''Service Unavailable'')) ''status 503''
      else AxiosFailed (Some (401, ''Unauthorized'')) ''status 401'')"

definition alwaysDown :: "nat \<Rightarrow> HttpOutcome" where
  "alwaysDown n = Failed ''timeout''"

text \<open>A configuration with caching switched off, and one with no room in the cache.\<close>

definition cfgNoCache :: Config where
  "cfgNoCache = cfg0\<lparr>cacheTtl := 0\<rparr>"

definition cfgNoRoom :: Config where
  "cfgNoRoom = cfg0\<lparr>maxCacheSize := 0\<rparr>"

text \<open>Two stores and a lookup that fill a cache of capacity 2.\<close>

definition fillCache :: "(int \<times> CacheOp) list" where
  "fillCache = [(1, Put ''google:a:'' ''x''), (2, Put ''google:b:'' ''y''), (3, Get ''google:a:'')]"

text \<open>
  Environments in which every request is answered, respectively times out, and no
  injection pattern matches; a configuration that admits one request per window; and
  three tool calls.
\<close>

definition alwaysAnswers :: "nat \<Rightarrow> HttpOutcome" where
  "alwaysAnswers n = Replied (Some ''answer'')"

definition envOk :: Env where
  "envOk =
     \<lparr>http = (\<lambda>m. alwaysAnswers), nowRateLimit = 10, nowCacheGet = 11, nowCacheSet = 12,
      scriptInjection = (\<lambda>s. False), promptInjection = (\<lambda>s. False)\<rparr>"

definition envDown :: Env where
  "envDown = envOk\<lparr>http := (\<lambda>m. alwaysDown)\<rparr>"

definition cfgOne :: Config where
  "cfgOne = cfg0\<lparr>rateLimitRequests := 1\<rparr>"

definition askAll :: ToolArgs where
  "askAll = \<lparr>model = ''all'', task = ''test task'', context' = None\<rparr>"

definition askRandom :: ToolArgs where
  "askRandom =
     \<lparr>model = ''random'', task = ''Test random provider selection'', context' = None\<rparr>"

definition askGoogle :: ToolArgs where
  "askGoogle = \<lparr>model = ''google'', task = ''test task'', context' = None\<rparr>"

text \<open>An environment in which one provider, Google, times out and the others answer.\<close>

definition envMixed :: Env where
  "envMixed =
     envOk\<lparr>http := (\<lambda>m. if m = ''google/gemini-2.5-pro'' then alwaysDown else alwaysAnswers)\<rparr>"

section \<open>Properties of the rate limiter\<close>

lemma fst_checkRateLimits_Cons:
  "fst (checkRateLimits cfg c (now # nows) tracker) =
     fst (checkRateLimit cfg now c tracker) #
     fst (checkRateLimits cfg c nows (snd (checkRateLimit cfg now c tracker)))"
  by (simp split: prod.splits)

lemma snd_checkRateLimits_Cons:
  "snd (checkRateLimits cfg c (now # nows) tracker) =
     snd (checkRateLimits cfg c nows (snd (checkRateLimit cfg now c tracker)))"
  by (simp split: prod.splits)

lemma checkRateLimit_denied:
  "tracker c = Some w \<Longrightarrow> now - windowStart w \<le> rateLimitWindow cfg \<Longrightarrow>
   rateLimitRequests cfg \<le> count w \<Longrightarrow> checkRateLimit cfg now c tracker = (False, tracker)"
  by (simp add: checkRateLimit_def)

lemma checkRateLimit_counted:
  "tracker c = Some w \<Longrightarrow> now - windowStart w \<le> rateLimitWindow cfg \<Longrightarrow>
   \<not> rateLimitRequests cfg \<le> count w \<Longrightarrow>
   checkRateLimit cfg now c tracker = (True, tracker(c \<mapsto> w\<lparr>count := count w + 1\<rparr>))"
  by (simp add: checkRateLimit_def)

lemma checkRateLimits_flags:
  assumes "tracker c = Some w"
    and "\<forall>now\<in>set nows. now - windowStart w \<le> rateLimitWindow cfg"
  shows "fst (checkRateLimits cfg c nows tracker) =
           replicate (min (length nows) (nat (rateLimitRequests cfg - count w))) True @
           replicate (length nows - nat (rateLimitRequests cfg - count w)) False"
  using assms
proof (induction nows arbitrary: tracker w)
  case Nil
  then show ?case by simp
next
  case (Cons now nows)
  have nr: "now - windowStart w \<le> rateLimitWindow cfg"
    using Cons.prems(2) by simp
  have ih: "\<forall>now\<in>set nows. now - windowStart w \<le> rateLimitWindow cfg"
    using Cons.prems(2) by simp
  show ?case
  proof (cases "rateLimitRequests cfg \<le> count w")
    case True
    have z: "nat (rateLimitRequests cfg - count w) = 0"
      using True by simp
    have "fst (checkRateLimits cfg c nows tracker) = replicate (length nows) False"
      using Cons.IH[of tracker w, OF Cons.prems(1) ih] unfolding z by simp
    moreover have "checkRateLimit cfg now c tracker = (False, tracker)"
      using Cons.prems(1) nr True by (rule checkRateLimit_denied)
    ultimately show ?thesis
      unfolding fst_checkRateLimits_Cons z by simp
  next
    case False
    let ?w' = "w\<lparr>count := count w + 1\<rparr>"
    let ?tr' = "tracker(c \<mapsto> ?w')"
    have a: "?tr' c = Some ?w'" by simp
    have ih': "\<forall>now\<in>set nows. now - windowStart ?w' \<le> rateLimitWindow cfg"
      using ih by simp
    have n: "nat (rateLimitRequests cfg - count w) = Suc (nat (rateLimitRequests cfg - count ?w'))"
      using False by simp
    have "checkRateLimit cfg now c tracker = (True, ?tr')"
      using Cons.prems(1) nr False by (rule checkRateLimit_counted)
    then show ?thesis
      unfolding fst_checkRateLimits_Cons n
      using Cons.IH[of ?tr' ?w', OF a ih'] by (simp add: fun_upd_def)
  qed
qed

lemma checkRateLimits_window:
  assumes "tracker c = Some w"
    and "\<forall>now\<in>set nows. now - windowStart w \<le> rateLimitWindow cfg"
  shows "snd (checkRateLimits cfg c nows tracker) c =
           Some (w\<lparr>count := (if rateLimitRequests cfg \<le> count w then count w
                              else min (count w + int (length nows)) (rateLimitRequests cfg))\<rparr>)"
  using assms
proof (induction nows arbitrary: tracker w)
  case Nil
  then show ?case by simp
next
  case (Cons now nows)
  have nr: "now - windowStart w \<le> rateLimitWindow cfg"
    using Cons.prems(2) by simp
  have ih: "\<forall>now\<in>set nows. now - windowStart w \<le> rateLimitWindow cfg"
    using Cons.prems(2) by simp
  show ?case
  proof (cases "rateLimitRequests cfg \<le> count w")
    case True
    have "checkRateLimit cfg now c tracker = (False, tracker)"
      using Cons.prems(1) nr True by (rule checkRateLimit_denied)
    then show ?thesis
      unfolding snd_checkRateLimits_Cons
      using Cons.IH[of tracker w, OF Cons.prems(1) ih] True by simp
  next
    case False
    let ?w' = "w\<lparr>count := count w + 1\<rparr>"
    let ?tr' = "tracker(c \<mapsto> ?w')"
    have a: "?tr' c = Some ?w'" by simp
    have ih': "\<forall>now\<in>set nows. now - windowStart ?w' \<le> rateLimitWindow cfg"
      using ih by simp
    have n: "(if rateLimitRequests cfg \<le> count ?w' then count ?w'
              else min (count ?w' + int (length nows)) (rateLimitRequests cfg))
           = min (count w + int (length (now # nows))) (rateLimitRequests cfg)"
      using False by (cases nows) (auto simp: min_def)
    have "snd (checkRateLimits cfg c nows ?tr') c =
           Some (w\<lparr>count := min (count w + int (length (now # nows))) (rateLimitRequests cfg)\<rparr>)"
      using Cons.IH[of ?tr' ?w', OF a ih'] unfolding n by (simp add: fun_upd_def)
    moreover have "checkRateLimit cfg now c tracker = (True, ?tr')"
      using Cons.prems(1) nr False by (rule checkRateLimit_counted)
    ultimately show ?thesis
      unfolding snd_checkRateLimits_Cons using False by simp
  qed
qed

text \<open>
  Claim C8, as the code has it. For a limit of at least 1 and a client without a window,
  a run of requests whose clock readings stay within the window opened by the first one
  (\<open>now - t0 \<le> rateLimitWindow\<close>) admits exactly the first \<open>rateLimitRequests\<close> of them
  and denies the rest, and leaves the counter at the number admitted. A request denied in
  the current window leaves the tracker as it was. The window is replaced by a fresh one
  with count 1, and the request admitted, when \<open>now - windowStart > rateLimitWindow\<close>:
  the comparison is strict, and at \<open>now - windowStart = rateLimitWindow\<close> the old window
  still counts.
\<close>

theorem rate_limit_window:
  "(1 \<le> rateLimitRequests cfg \<and> tracker clientId = None \<and>
      (\<forall>now\<in>set nows. now - t0 \<le> rateLimitWindow cfg) \<longrightarrow>
      fst (checkRateLimits cfg clientId (t0 # nows) tracker) =
        replicate (min (Suc (length nows)) (nat (rateLimitRequests cfg))) True @
        replicate (Suc (length nows) - nat (rateLimitRequests cfg)) False
      \<and> snd (checkRateLimits cfg clientId (t0 # nows) tracker) clientId =
        Some \<lparr>count = min (1 + int (length nows)) (rateLimitRequests cfg), windowStart = t0\<rparr>)
   \<and> (tracker clientId = Some w \<and> now - windowStart w \<le> rateLimitWindow cfg \<and>
        rateLimitRequests cfg \<le> count w \<longrightarrow>
      checkRateLimit cfg now clientId tracker = (False, tracker))
   \<and> (tracker clientId = Some w \<and> now - windowStart w > rateLimitWindow cfg \<longrightarrow>
      checkRateLimit cfg now clientId tracker =
        (True, tracker(clientId \<mapsto> \<lparr>count = 1, windowStart = now\<rparr>)))"
proof (intro conjI impI)
  assume h: "1 \<le> rateLimitRequests cfg \<and> tracker clientId = None \<and>
      (\<forall>now\<in>set nows. now - t0 \<le> rateLimitWindow cfg)"
  let ?w = "\<lparr>count = 1, windowStart = t0\<rparr>"
  let ?tr = "tracker(clientId \<mapsto> ?w)"
  have first: "checkRateLimit cfg t0 clientId tracker = (True, ?tr)"
    using h by (simp add: checkRateLimit_def)
  have a: "?tr clientId = Some ?w" by simp
  have b: "\<forall>now\<in>set nows. now - windowStart ?w \<le> rateLimitWindow cfg"
    using h by simp
  have n: "nat (rateLimitRequests cfg) = Suc (nat (rateLimitRequests cfg - count ?w))"
    using h by auto
  show "fst (checkRateLimits cfg clientId (t0 # nows) tracker) =
        replicate (min (Suc (length nows)) (nat (rateLimitRequests cfg))) True @
        replicate (Suc (length nows) - nat (rateLimitRequests cfg)) False"
    unfolding fst_checkRateLimits_Cons first n
    using checkRateLimits_flags[of ?tr clientId ?w nows cfg, OF a b] by simp
  have m: "(if rateLimitRequests cfg \<le> count ?w then count ?w
              else min (count ?w + int (length nows)) (rateLimitRequests cfg))
           = min (1 + int (length nows)) (rateLimitRequests cfg)"
    using h by (cases nows) (auto simp: min_def)
  have "snd (checkRateLimits cfg clientId nows ?tr) clientId =
        Some \<lparr>count = min (1 + int (length nows)) (rateLimitRequests cfg), windowStart = t0\<rparr>"
    using checkRateLimits_window[of ?tr clientId ?w nows cfg, OF a b] unfolding m by simp
  then show "snd (checkRateLimits cfg clientId (t0 # nows) tracker) clientId =
        Some \<lparr>count = min (1 + int (length nows)) (rateLimitRequests cfg), windowStart = t0\<rparr>"
    unfolding snd_checkRateLimits_Cons first by simp
next
  assume "tracker clientId = Some w \<and> now - windowStart w \<le> rateLimitWindow cfg \<and>
        rateLimitRequests cfg \<le> count w"
  then show "checkRateLimit cfg now clientId tracker = (False, tracker)"
    by (simp add: checkRateLimit_def)
next
  assume "tracker clientId = Some w \<and> now - windowStart w > rateLimitWindow cfg"
  then show "checkRateLimit cfg now clientId tracker =
        (True, tracker(clientId \<mapsto> \<lparr>count = 1, windowStart = now\<rparr>))"
    by (simp add: checkRateLimit_def)
qed

theorem rate_limit_window_witness:
  "fst (checkRateLimits cfg0 ''default'' [0, 10, 60000] Map.empty) = [True, True, False]
   \<and> snd (checkRateLimits cfg0 ''default'' [0, 10, 60000] Map.empty) ''default''
       = Some \<lparr>count = 2, windowStart = 0\<rparr>
   \<and> checkRateLimit cfg0 60000 ''default'' [''default'' \<mapsto> \<lparr>count = 2, windowStart = 0\<rparr>]
       = (False, [''default'' \<mapsto> \<lparr>count = 2, windowStart = 0\<rparr>])
   \<and> checkRateLimit cfg0 60001 ''default'' [''default'' \<mapsto> \<lparr>count = 2, windowStart = 0\<rparr>]
       = (True, [''default'' \<mapsto> \<lparr>count = 2, windowStart = 0\<rparr>,
                 ''default'' \<mapsto> \<lparr>count = 1, windowStart = 60001\<rparr>])"
proof -
  have c: "rateLimitRequests cfg0 = 2" "rateLimitWindow cfg0 = 60000"
    by (simp_all add: cfg0_def)
  let ?tr = "[''default'' \<mapsto> \<lparr>count = 2, windowStart = 0\<rparr>]"
  have a: "fst (checkRateLimits cfg0 ''default'' [0, 10, 60000] Map.empty) = [True, True, False]
   \<and> snd (checkRateLimits cfg0 ''default'' [0, 10, 60000] Map.empty) ''default''
       = Some \<lparr>count = 2, windowStart = 0\<rparr>"
    using rate_limit_window[of cfg0 Map.empty "''default''" "[10, 60000]" 0] c
    by (simp add: numeral_2_eq_2)
  have b: "checkRateLimit cfg0 60000 ''default'' ?tr = (False, ?tr)"
    using rate_limit_window[of cfg0 ?tr "''default''" "[]" 0 "\<lparr>count = 2, windowStart = 0\<rparr>" 60000] c
    by simp
  have d: "checkRateLimit cfg0 60001 ''default'' ?tr
       = (True, ?tr(''default'' \<mapsto> \<lparr>count = 1, windowStart = 60001\<rparr>))"
    using rate_limit_window[of cfg0 ?tr "''default''" "[]" 0 "\<lparr>count = 2, windowStart = 0\<rparr>" 60001] c
    by simp
  from a b d show ?thesis by simp
qed

text \<open>
  With limit 2 and a window of 60000 that holds two requests since time 0, a request at
  time 60000 has \<open>now - windowStart \<ge> windowLength\<close>, yet it is denied and the window is
  not reset.
\<close>

theorem rate_limit_boundary_counterexample:
  "60000 - windowStart \<lparr>count = 2, windowStart = 0\<rparr> \<ge> rateLimitWindow cfg0
   \<and> checkRateLimit cfg0 60000 ''default'' [''default'' \<mapsto> \<lparr>count = 2, windowStart = 0\<rparr>]
       = (False, [''default'' \<mapsto> \<lparr>count = 2, windowStart = 0\<rparr>])"
  by (simp add: checkRateLimit_def cfg0_def)

section \<open>Properties of the retrying dispatcher\<close>

lemma transient_thrown:
  "transient out \<Longrightarrow> \<exists>e. callOpenRouter out = Inl e \<and> clientErrorStatus e = None \<and> thrownBy out = Some e"
  by (auto simp: transient_def thrownBy_def split: sum.splits)

lemma retryFrom_retry:
  assumes "int a < maxRetries cfg" and "transient (call a)"
  shows "retryFrom cfg call a le w =
         retryFrom cfg call (a + 1) (thrownBy (call a))
           (if int a < maxRetries cfg - 1 then w @ [2 ^ a * 1000] else w)"
proof -
  obtain e where e: "callOpenRouter (call a) = Inl e" "clientErrorStatus e = None"
      "thrownBy (call a) = Some e"
    using transient_thrown[OF assms(2)] by blast
  show ?thesis
    using assms(1) e by (subst retryFrom.simps) simp
qed

lemma retryFrom_skip:
  assumes "\<forall>i<k. transient (call i)" and "int k \<le> maxRetries cfg"
  shows "retryFrom cfg call 0 None [] =
         retryFrom cfg call k (if k = 0 then None else thrownBy (call (k - 1)))
           (backoff (min k (nat (maxRetries cfg - 1))))"
  using assms
proof (induction k)
  case 0
  then show ?case by (simp add: backoff_def)
next
  case (Suc k)
  have lt: "int k < maxRetries cfg" using Suc.prems(2) by simp
  have tr: "transient (call k)" using Suc.prems(1) by simp
  have ih: "retryFrom cfg call 0 None [] =
         retryFrom cfg call k (if k = 0 then None else thrownBy (call (k - 1)))
           (backoff (min k (nat (maxRetries cfg - 1))))"
    using Suc.IH Suc.prems lt by simp
  have mk: "min k (nat (maxRetries cfg - 1)) = k" using lt by simp
  have w: "(if int k < maxRetries cfg - 1 then backoff k @ [2 ^ k * 1000] else backoff k)
         = backoff (min (Suc k) (nat (maxRetries cfg - 1)))"
  proof (cases "int k < maxRetries cfg - 1")
    case True
    then have "min (Suc k) (nat (maxRetries cfg - 1)) = Suc k" by simp
    with True show ?thesis by (simp add: backoff_def)
  next
    case False
    with lt have "min (Suc k) (nat (maxRetries cfg - 1)) = k" by simp
    with False show ?thesis by simp
  qed
  have step: "retryFrom cfg call k (if k = 0 then None else thrownBy (call (k - 1))) (backoff k) =
         retryFrom cfg call (k + 1) (thrownBy (call k))
           (if int k < maxRetries cfg - 1 then backoff k @ [2 ^ k * 1000] else backoff k)"
    using lt tr by (rule retryFrom_retry)
  show ?case
    unfolding ih mk step w by simp
qed

lemma posts_retryFrom:
  "int (posts (retryFrom cfg call a le w)) \<le> max (int a) (maxRetries cfg)"
proof (induction cfg call a le w rule: retryFrom.induct)
  case (1 cfg call attempt lastError waited)
  show ?case
  proof (cases "int attempt < maxRetries cfg")
    case False
    then show ?thesis by (subst retryFrom.simps) simp
  next
    case True
    show ?thesis
    proof (cases "callOpenRouter (call attempt)")
      case (Inr answer)
      with True show ?thesis by (subst retryFrom.simps) simp
    next
      case (Inl e)
      show ?thesis
      proof (cases "clientErrorStatus e")
        case (Some st)
        with True Inl show ?thesis by (subst retryFrom.simps) (simp split: prod.splits)
      next
        case None
        have "int (posts (retryFrom cfg call (attempt + 1) (Some e)
                 (if int attempt < maxRetries cfg - 1 then waited @ [2 ^ attempt * 1000] else waited)))
              \<le> max (int (attempt + 1)) (maxRetries cfg)"
          using "1.IH"[OF True Inl None] .
        with True Inl None show ?thesis by (subst retryFrom.simps) simp
      qed
    qed
  qed
qed

text \<open>
  Claim C5. A dispatch posts at most \<open>maxRetries\<close> requests. When the attempts before
  attempt \<open>k < maxRetries\<close> fail with something other than an HTTP 4xx and attempt \<open>k\<close>
  fails with an HTTP 4xx, the dispatch stops there with a \<^verbatim>\<open>CLIENT_ERROR\<close> whose cause is
  that error; when attempt \<open>k\<close> succeeds instead, its answer is returned and nothing more
  is posted. In both cases the delays waited are \<open>2 ^ attempt\<close> seconds after each failed
  attempt \<open>0, \<dots>, k - 1\<close>. When all \<open>maxRetries > 0\<close> attempts fail with something other
  than an HTTP 4xx, the dispatch fails with \<^verbatim>\<open>MAX_RETRIES_EXCEEDED\<close> whose cause is the
  error of the last attempt, after \<open>maxRetries\<close> posts; no delay follows the last attempt.
\<close>

theorem retry_dispatch:
  "int (posts (callOpenRouterWithRetry cfg call)) \<le> max 0 (maxRetries cfg)
   \<and> (int k < maxRetries cfg \<and> (\<forall>i<k. transient (call i)) \<and>
        callOpenRouter (call k) = Inl e \<and> clientErrorStatus e = Some (status, statusText) \<longrightarrow>
      callOpenRouterWithRetry cfg call =
        \<lparr>outcome = Inl (SmartAdvisorError
           (''OpenRouter client error: '' @ showInt status @ '' '' @ statusText)
           ''CLIENT_ERROR'' (Some e)),
         posts = k + 1, delays = backoff k\<rparr>)
   \<and> (int k < maxRetries cfg \<and> (\<forall>i<k. transient (call i)) \<and>
        callOpenRouter (call k) = Inr answer \<longrightarrow>
      callOpenRouterWithRetry cfg call =
        \<lparr>outcome = Inr answer, posts = k + 1, delays = backoff k\<rparr>)
   \<and> (0 < maxRetries cfg \<and> (\<forall>i. int i < maxRetries cfg \<longrightarrow> transient (call i)) \<longrightarrow>
      (\<exists>lastError. callOpenRouter (call (nat (maxRetries cfg) - 1)) = Inl lastError \<and>
         callOpenRouterWithRetry cfg call =
           \<lparr>outcome = Inl (SmartAdvisorError
              (''Failed after '' @ showInt (maxRetries cfg) @ '' attempts: '' @ message lastError)
              ''MAX_RETRIES_EXCEEDED'' (Some lastError)),
            posts = nat (maxRetries cfg), delays = backoff (nat (maxRetries cfg) - 1)\<rparr>))"
proof (intro conjI impI)
  show "int (posts (callOpenRouterWithRetry cfg call)) \<le> max 0 (maxRetries cfg)"
    using posts_retryFrom[of cfg call 0 None "[]"] by (simp add: callOpenRouterWithRetry_def)
next
  assume h: "int k < maxRetries cfg \<and> (\<forall>i<k. transient (call i)) \<and>
        callOpenRouter (call k) = Inl e \<and> clientErrorStatus e = Some (status, statusText)"
  then have lt: "int k < maxRetries cfg" and "int k \<le> maxRetries cfg"
    and tr: "\<forall>i<k. transient (call i)" by simp_all
  then have skip: "retryFrom cfg call 0 None [] =
         retryFrom cfg call k (if k = 0 then None else thrownBy (call (k - 1)))
           (backoff (min k (nat (maxRetries cfg - 1))))"
    using retryFrom_skip[of k call cfg] by simp
  have mk: "min k (nat (maxRetries cfg - 1)) = k" using lt by simp
  show "callOpenRouterWithRetry cfg call =
        \<lparr>outcome = Inl (SmartAdvisorError
           (''OpenRouter client error: '' @ showInt status @ '' '' @ statusText)
           ''CLIENT_ERROR'' (Some e)),
         posts = k + 1, delays = backoff k\<rparr>"
    unfolding callOpenRouterWithRetry_def skip mk
    using h by (subst retryFrom.simps) simp
next
  assume h: "int k < maxRetries cfg \<and> (\<forall>i<k. transient (call i)) \<and>
        callOpenRouter (call k) = Inr answer"
  then have lt: "int k < maxRetries cfg" and "int k \<le> maxRetries cfg"
    and tr: "\<forall>i<k. transient (call i)" by simp_all
  then have skip: "retryFrom cfg call 0 None [] =
         retryFrom cfg call k (if k = 0 then None else thrownBy (call (k - 1)))
           (backoff (min k (nat (maxRetries cfg - 1))))"
    using retryFrom_skip[of k call cfg] by simp
  have mk: "min k (nat (maxRetries cfg - 1)) = k" using lt by simp
  show "callOpenRouterWithRetry cfg call =
        \<lparr>outcome = Inr answer, posts = k + 1, delays = backoff k\<rparr>"
    unfolding callOpenRouterWithRetry_def skip mk
    using h by (subst retryFrom.simps) simp
next
  assume h: "0 < maxRetries cfg \<and> (\<forall>i. int i < maxRetries cfg \<longrightarrow> transient (call i))"
  let ?n = "nat (maxRetries cfg)"
  have n: "int ?n = maxRetries cfg" "?n \<noteq> 0" using h by simp_all
  have tr: "\<forall>i<?n. transient (call i)" using h by simp
  have skip: "retryFrom cfg call 0 None [] =
         retryFrom cfg call ?n (if ?n = 0 then None else thrownBy (call (?n - 1)))
           (backoff (min ?n (nat (maxRetries cfg - 1))))"
    using retryFrom_skip[of ?n call cfg] tr n by simp
  have "0 < maxRetries cfg" using h by simp
  then have mk: "min ?n (nat (maxRetries cfg - 1)) = ?n - 1" by simp
  have "transient (call (?n - 1))" using tr n by simp
  then obtain lastError where e: "callOpenRouter (call (?n - 1)) = Inl lastError"
      "thrownBy (call (?n - 1)) = Some lastError"
    using transient_thrown by blast
  have "callOpenRouterWithRetry cfg call =
           \<lparr>outcome = Inl (SmartAdvisorError
              (''Failed after '' @ showInt (maxRetries cfg) @ '' attempts: '' @ message lastError)
              ''MAX_RETRIES_EXCEEDED'' (Some lastError)),
            posts = ?n, delays = backoff (?n - 1)\<rparr>"
    unfolding callOpenRouterWithRetry_def skip mk
    using n e by (subst retryFrom.simps) simp
  with e show "\<exists>lastError. callOpenRouter (call (?n - 1)) = Inl lastError \<and>
         callOpenRouterWithRetry cfg call =
           \<lparr>outcome = Inl (SmartAdvisorError
              (''Failed after '' @ showInt (maxRetries cfg) @ '' attempts: '' @ message lastError)
              ''MAX_RETRIES_EXCEEDED'' (Some lastError)),
            posts = ?n, delays = backoff (?n - 1)\<rparr>"
    by blast
qed

theorem retry_dispatch_witness:
  "callOpenRouterWithRetry cfg0 flakyThenOk =
     \<lparr>outcome = Inr ''ok'', posts = 3, delays = [1000, 2000]\<rparr>
   \<and> callOpenRouterWithRetry cfg0 unauthorized =
     \<lparr>outcome = Inl (SmartAdvisorError (''OpenRouter client error: '' @ showInt 401 @ '' Unauthorized'')
        ''CLIENT_ERROR'' (Some (AxiosError (Some (401, ''Unauthorized'')) ''status 401''))),
      posts = 2, delays = [1000]\<rparr>
   \<and> callOpenRouterWithRetry cfg0 alwaysDown =
     \<lparr>outcome = Inl (SmartAdvisorError (''Failed after '' @ showInt 3 @ '' attempts: timeout'')
        ''MAX_RETRIES_EXCEEDED'' (Some (Error ''timeout''))),
      posts = 3, delays = [1000, 2000]\<rparr>
   \<and> int (posts (callOpenRouterWithRetry cfg0 alwaysDown)) \<le> 3"
proof -
  have m: "maxRetries cfg0 = 3" by (simp add: cfg0_def)
  have b2: "backoff 2 = [1000, 2000]" and b1: "backoff 1 = [1000]"
    by (simp_all add: backoff_def numeral_2_eq_2)
  have a: "callOpenRouterWithRetry cfg0 flakyThenOk =
     \<lparr>outcome = Inr ''ok'', posts = 3, delays = [1000, 2000]\<rparr>"
    using retry_dispatch[of cfg0 flakyThenOk 2 _ _ _ "''ok''"] m b2
    by (simp add: flakyThenOk_def transient_def)
  have b: "callOpenRouterWithRetry cfg0 unauthorized =
     \<lparr>outcome = Inl (SmartAdvisorError (''OpenRouter client error: '' @ showInt 401 @ '' Unauthorized'')
        ''CLIENT_ERROR'' (Some (AxiosError (Some (401, ''Unauthorized'')) ''status 401''))),
      posts = 2, delays = [1000]\<rparr>"
    using retry_dispatch[of cfg0 unauthorized 1 "AxiosError (Some (401, ''Unauthorized'')) ''status 401''"
        401 "''Unauthorized''"] m b1
    by (simp add: unauthorized_def transient_def)
  have c: "callOpenRouterWithRetry cfg0 alwaysDown =
     \<lparr>outcome = Inl (SmartAdvisorError (''Failed after '' @ showInt 3 @ '' attempts: timeout'')
        ''MAX_RETRIES_EXCEEDED'' (Some (Error ''timeout''))),
      posts = 3, delays = [1000, 2000]\<rparr>"
    using retry_dispatch[of cfg0 alwaysDown] m b2
    by (simp add: alwaysDown_def transient_def)
  have d: "int (posts (callOpenRouterWithRetry cfg0 alwaysDown)) \<le> 3"
    using retry_dispatch[of cfg0 alwaysDown] m by simp
  from a b c d show ?thesis by simp
qed

section \<open>Properties of the response cache\<close>

lemma map_of_Map_set_same: "map_of (Map_set k v kvs) k = Some v"
  by (induction kvs) auto

lemma map_of_Map_set_other: "k' \<noteq> k \<Longrightarrow> map_of (Map_set k v kvs) k' = map_of kvs k'"
  by (induction kvs) auto

lemma map_of_Map_delete_same: "map_of (Map_delete k kvs) k = None"
  by (induction kvs) (auto simp: Map_delete_def)

lemma map_of_Map_delete_other: "k' \<noteq> k \<Longrightarrow> map_of (Map_delete k kvs) k' = map_of kvs k'"
  by (induction kvs) (auto simp: Map_delete_def)

lemma set_Map_set: "set (Map_set k v kvs) \<subseteq> insert (k, v) (set kvs)"
  by (induction kvs) (auto split: if_splits)

lemma fst_set_Map_set: "fst ` set (Map_set k v kvs) = insert k (fst ` set kvs)"
proof (induction kvs)
  case Nil
  show ?case by simp
next
  case (Cons kv kvs)
  obtain k' v' where kv: "kv = (k', v')" by (cases kv)
  show ?case
  proof (cases "k' = k")
    case True
    then show ?thesis by (simp add: kv)
  next
    case False
    then show ?thesis using Cons.IH by (simp add: kv insert_commute)
  qed
qed

lemma distinct_Map_set: "distinct (map fst kvs) \<Longrightarrow> distinct (map fst (Map_set k v kvs))"
  by (induction kvs) (auto simp: fst_set_Map_set)

lemma length_Map_set_le: "length (Map_set k v kvs) \<le> Suc (length kvs)"
  by (induction kvs) auto

lemma length_Map_set_present: "k \<in> fst ` set kvs \<Longrightarrow> length (Map_set k v kvs) = length kvs"
  by (induction kvs) (auto simp: rev_image_eqI)

lemma distinct_Map_delete: "distinct (map fst kvs) \<Longrightarrow> distinct (map fst (Map_delete k kvs))"
  by (simp add: Map_delete_def distinct_map_filter)

lemma set_Map_delete: "set (Map_delete k kvs) \<subseteq> set kvs"
  by (auto simp: Map_delete_def)

lemma length_Map_delete_le: "length (Map_delete k kvs) \<le> length kvs"
  by (simp add: Map_delete_def)

lemma Map_delete_absent: "k \<notin> fst ` set kvs \<Longrightarrow> Map_delete k kvs = kvs"
  by (induction kvs) (auto simp: Map_delete_def)

lemma length_Map_delete_present:
  "distinct (map fst kvs) \<Longrightarrow> k \<in> fst ` set kvs \<Longrightarrow> Suc (length (Map_delete k kvs)) = length kvs"
proof (induction kvs)
  case Nil
  then show ?case by simp
next
  case (Cons kv kvs)
  show ?case
  proof (cases "fst kv = k")
    case True
    with Cons.prems have "k \<notin> fst ` set kvs" by auto
    then have "Map_delete k kvs = kvs" by (rule Map_delete_absent)
    then have "filter (\<lambda>kv. fst kv \<noteq> k) kvs = kvs" by (simp add: Map_delete_def)
    with True show ?thesis by (simp add: Map_delete_def)
  next
    case False
    with Cons.prems have "k \<in> fst ` set kvs" "distinct (map fst kvs)" by auto
    with Cons.IH have "Suc (length (Map_delete k kvs)) = length kvs" by simp
    with False show ?thesis by (simp add: Map_delete_def)
  qed
qed

lemma metrics_evictLeastRecentlyUsed:
  "hits (cacheMetrics (evictLeastRecentlyUsed now st)) = hits (cacheMetrics st)"
  "misses (cacheMetrics (evictLeastRecentlyUsed now st)) = misses (cacheMetrics st)"
  "totalRequests (cacheMetrics (evictLeastRecentlyUsed now st)) = totalRequests (cacheMetrics st)"
  by (simp_all add: evictLeastRecentlyUsed_def split: prod.splits option.splits)

lemma metrics_setCachedResponse:
  "hits (cacheMetrics (setCachedResponse cfg now key v st)) = hits (cacheMetrics st)"
  "misses (cacheMetrics (setCachedResponse cfg now key v st)) = misses (cacheMetrics st)"
  "totalRequests (cacheMetrics (setCachedResponse cfg now key v st)) = totalRequests (cacheMetrics st)"
  by (simp_all add: setCachedResponse_def Let_def metrics_evictLeastRecentlyUsed)

lemma map_of_setCachedResponse:
  "map_of (requestCache (setCachedResponse cfg now key v st)) key =
     Some \<lparr>response = v, timestamp = now, accessCount = 1\<rparr>"
  by (simp add: setCachedResponse_def Let_def map_of_Map_set_same)

lemma getCachedResponse_hit:
  assumes "map_of (requestCache st) key = Some cached"
    and "now - timestamp cached < cacheTtl cfg"
  shows "getCachedResponse cfg now key st =
           (Some (response cached),
            st\<lparr>cacheMetrics := (cacheMetrics st)
                   \<lparr>totalRequests := totalRequests (cacheMetrics st) + 1,
                    hits := hits (cacheMetrics st) + 1\<rparr>,
               requestCache := Map_set key (cached\<lparr>accessCount := accessCount cached + 1\<rparr>)
                                 (requestCache st)\<rparr>)"
  using assms by (simp add: getCachedResponse_def Let_def)

lemma getCachedResponse_expired:
  assumes "map_of (requestCache st) key = Some cached"
    and "cacheTtl cfg \<le> now - timestamp cached"
  shows "getCachedResponse cfg now key st =
           (None,
            st\<lparr>cacheMetrics := (cacheMetrics st)
                   \<lparr>totalRequests := totalRequests (cacheMetrics st) + 1,
                    misses := misses (cacheMetrics st) + 1\<rparr>,
               requestCache := Map_delete key (requestCache st)\<rparr>)"
  using assms by (simp add: getCachedResponse_def Let_def)

lemma getCachedResponse_absent:
  assumes "map_of (requestCache st) key = None"
  shows "getCachedResponse cfg now key st =
           (None,
            st\<lparr>cacheMetrics := (cacheMetrics st)
                   \<lparr>totalRequests := totalRequests (cacheMetrics st) + 1,
                    misses := misses (cacheMetrics st) + 1\<rparr>\<rparr>)"
  using assms by (simp add: getCachedResponse_def Let_def)

text \<open>
  Claim C7. A \<^verbatim>\<open>setCachedResponse\<close> of \<open>v\<close> under \<open>k\<close> at time \<open>tPut\<close> followed by a
  \<^verbatim>\<open>getCachedResponse\<close> of \<open>k\<close> at time \<open>tGet\<close>: when \<open>tGet - tPut < cacheTtl\<close> the lookup
  returns \<open>v\<close>, adds one to the hit counter and raises the entry's access count from 1 to
  2; when \<open>cacheTtl \<le> tGet - tPut\<close> it returns nothing, adds one to the miss counter and
  the entry is gone from the map. With \<open>cacheTtl = 0\<close>, a lookup in any cache whose entries
  are not stamped later than the lookup's own clock reading is a miss.
\<close>

theorem cache_round_trip:
  "(tGet - tPut < cacheTtl cfg \<longrightarrow>
      (case getCachedResponse cfg tGet k (setCachedResponse cfg tPut k v st) of
         (found, st') \<Rightarrow>
           found = Some v
           \<and> hits (cacheMetrics st') = hits (cacheMetrics st) + 1
           \<and> misses (cacheMetrics st') = misses (cacheMetrics st)
           \<and> map_of (requestCache st') k =
               Some \<lparr>response = v, timestamp = tPut, accessCount = 2\<rparr>))
   \<and> (cacheTtl cfg \<le> tGet - tPut \<longrightarrow>
      (case getCachedResponse cfg tGet k (setCachedResponse cfg tPut k v st) of
         (found, st') \<Rightarrow>
           found = None
           \<and> hits (cacheMetrics st') = hits (cacheMetrics st)
           \<and> misses (cacheMetrics st') = misses (cacheMetrics st) + 1
           \<and> map_of (requestCache st') k = None))
   \<and> (cacheTtl cfg = 0 \<and> (\<forall>entry\<in>snd ` set (requestCache st). timestamp entry \<le> now) \<longrightarrow>
      (case getCachedResponse cfg now k st of
         (found, st') \<Rightarrow>
           found = None
           \<and> hits (cacheMetrics st') = hits (cacheMetrics st)
           \<and> misses (cacheMetrics st') = misses (cacheMetrics st) + 1
           \<and> map_of (requestCache st') k = None))"
proof (intro conjI impI)
  let ?stGet = "setCachedResponse cfg tPut k v st"
  let ?e = "\<lparr>response = v, timestamp = tPut, accessCount = 1\<rparr>"
  have e: "map_of (requestCache ?stGet) k = Some ?e"
    by (rule map_of_setCachedResponse)
  {
    assume "tGet - tPut < cacheTtl cfg"
    then have "tGet - timestamp ?e < cacheTtl cfg" by simp
    from getCachedResponse_hit[OF e this]
    show "case getCachedResponse cfg tGet k ?stGet of
         (found, st') \<Rightarrow>
           found = Some v
           \<and> hits (cacheMetrics st') = hits (cacheMetrics st) + 1
           \<and> misses (cacheMetrics st') = misses (cacheMetrics st)
           \<and> map_of (requestCache st') k =
               Some \<lparr>response = v, timestamp = tPut, accessCount = 2\<rparr>"
      by (simp add: metrics_setCachedResponse map_of_Map_set_same)
  }
  {
    assume "cacheTtl cfg \<le> tGet - tPut"
    then have "cacheTtl cfg \<le> tGet - timestamp ?e" by simp
    from getCachedResponse_expired[OF e this]
    show "case getCachedResponse cfg tGet k ?stGet of
         (found, st') \<Rightarrow>
           found = None
           \<and> hits (cacheMetrics st') = hits (cacheMetrics st)
           \<and> misses (cacheMetrics st') = misses (cacheMetrics st) + 1
           \<and> map_of (requestCache st') k = None"
      by (simp add: metrics_setCachedResponse map_of_Map_delete_same)
  }
  assume h: "cacheTtl cfg = 0 \<and> (\<forall>entry\<in>snd ` set (requestCache st). timestamp entry \<le> now)"
  show "case getCachedResponse cfg now k st of
         (found, st') \<Rightarrow>
           found = None
           \<and> hits (cacheMetrics st') = hits (cacheMetrics st)
           \<and> misses (cacheMetrics st') = misses (cacheMetrics st) + 1
           \<and> map_of (requestCache st') k = None"
  proof (cases "map_of (requestCache st) k")
    case None
    from getCachedResponse_absent[OF None] None show ?thesis by simp
  next
    case (Some cached)
    then have "(k, cached) \<in> set (requestCache st)" by (rule map_of_SomeD)
    then have "cached \<in> snd ` set (requestCache st)" by force
    with h have "timestamp cached \<le> now" by blast
    with h have "cacheTtl cfg \<le> now - timestamp cached" by simp
    from getCachedResponse_expired[OF Some this] show ?thesis
      by (simp add: map_of_Map_delete_same)
  qed
qed


theorem cache_round_trip_witness:
  "fst (getCachedResponse cfg0 299999 ''google:t:'' (setCachedResponse cfg0 0 ''google:t:'' ''answer'' initialState))
     = Some ''answer''
   \<and> fst (getCachedResponse cfg0 300000 ''google:t:'' (setCachedResponse cfg0 0 ''google:t:'' ''answer'' initialState))
     = None
   \<and> map_of (requestCache (snd (getCachedResponse cfg0 300000 ''google:t:''
        (setCachedResponse cfg0 0 ''google:t:'' ''answer'' initialState)))) ''google:t:'' = None
   \<and> fst (getCachedResponse cfgNoCache 5 ''google:t:''
        (setCachedResponse cfgNoCache 5 ''google:t:'' ''answer'' initialState)) = None"
proof -
  let ?k = "''google:t:''"
  have c: "cacheTtl cfg0 = 300000" "cacheTtl cfgNoCache = 0"
    by (simp_all add: cfg0_def cfgNoCache_def)
  have a: "fst (getCachedResponse cfg0 299999 ?k (setCachedResponse cfg0 0 ?k ''answer'' initialState))
     = Some ''answer''"
    using cache_round_trip[where tGet=299999 and tPut=0 and cfg=cfg0 and k="?k" and v="''answer''"
        and st=initialState and now=0] c
    by (simp split: prod.splits)
  have b: "fst (getCachedResponse cfg0 300000 ?k (setCachedResponse cfg0 0 ?k ''answer'' initialState))
     = None
   \<and> map_of (requestCache (snd (getCachedResponse cfg0 300000 ?k
        (setCachedResponse cfg0 0 ?k ''answer'' initialState)))) ?k = None"
    using cache_round_trip[where tGet=300000 and tPut=0 and cfg=cfg0 and k="?k" and v="''answer''"
        and st=initialState and now=0] c
    by (simp split: prod.splits)
  have s: "requestCache (setCachedResponse cfgNoCache 5 ?k ''answer'' initialState)
     = [(?k, \<lparr>response = ''answer'', timestamp = 5, accessCount = 1\<rparr>)]"
    by (simp add: setCachedResponse_def cfgNoCache_def cfg0_def initialState_def)
  have d: "fst (getCachedResponse cfgNoCache 5 ?k
        (setCachedResponse cfgNoCache 5 ?k ''answer'' initialState)) = None"
    using cache_round_trip[where cfg=cfgNoCache and now=5 and k="?k" and tGet=0 and tPut=0 and v="[]"
        and st="setCachedResponse cfgNoCache 5 ?k ''answer'' initialState"] c s
    by (simp split: prod.splits)
  from a b d show ?thesis by simp
qed

lemma notAfter_refl: "notAfter e e"
  by (simp add: notAfter_def)

lemma lruScan_from_candidate:
  assumes "(k, e) \<in> set ys" and "\<forall>kv\<in>set ys. notAfter e (snd kv)"
  shows "\<exists>k2 e2. lruScan xs (Some k, timestamp e, Some (accessCount e)) =
                    (Some k2, timestamp e2, Some (accessCount e2))
                 \<and> (k2, e2) \<in> set (ys @ xs)
                 \<and> (\<forall>kv\<in>set (ys @ xs). notAfter e2 (snd kv))"
  using assms
proof (induction xs arbitrary: k e ys)
  case Nil
  then show ?case by auto
next
  case (Cons x xs)
  obtain kx ex where x: "x = (kx, ex)" by (cases x)
  show ?case
  proof (cases "timestamp ex < timestamp e \<or>
                (timestamp ex = timestamp e \<and> accessCount ex < accessCount e)")
    case True
    have a: "(kx, ex) \<in> set (ys @ [x])" by (simp add: x)
    have b: "\<forall>kv\<in>set (ys @ [x]). notAfter ex (snd kv)"
      using Cons.prems(2) True by (auto simp: notAfter_def x)
    have step: "lruScan (x # xs) (Some k, timestamp e, Some (accessCount e)) =
                lruScan xs (Some kx, timestamp ex, Some (accessCount ex))"
      using True by (simp add: x)
    from Cons.IH[OF a b] show ?thesis unfolding step by simp
  next
    case False
    have a: "(k, e) \<in> set (ys @ [x])" using Cons.prems(1) by simp
    have b: "\<forall>kv\<in>set (ys @ [x]). notAfter e (snd kv)"
      using Cons.prems(2) False by (auto simp: notAfter_def x)
    have step: "lruScan (x # xs) (Some k, timestamp e, Some (accessCount e)) =
                lruScan xs (Some k, timestamp e, Some (accessCount e))"
      using False by (auto simp: x)
    from Cons.IH[OF a b] show ?thesis unfolding step by simp
  qed
qed

lemma lruScan_finds_least:
  assumes "xs \<noteq> []" and "\<forall>kv\<in>set xs. timestamp (snd kv) \<le> now"
  shows "\<exists>k e. lruScan xs (None, now, None) = (Some k, timestamp e, Some (accessCount e))
               \<and> (k, e) \<in> set xs \<and> (\<forall>kv\<in>set xs. notAfter e (snd kv))"
proof -
  obtain kx ex rest where xs: "xs = (kx, ex) # rest"
    using assms(1) by (cases xs) auto
  have le: "timestamp ex \<le> now" using assms(2) by (simp add: xs)
  have first: "lruScan xs (None, now, None) =
               lruScan rest (Some kx, timestamp ex, Some (accessCount ex))"
    using le by (auto simp: xs)
  have a: "(kx, ex) \<in> set [(kx, ex)]" by simp
  have b: "\<forall>kv\<in>set [(kx, ex)]. notAfter ex (snd kv)" by (simp add: notAfter_refl)
  from lruScan_from_candidate[OF a b, of rest] first show ?thesis by (simp add: xs)
qed

lemma evictLeastRecentlyUsed_evicts:
  assumes "requestCache st \<noteq> []"
    and "distinct (map fst (requestCache st))"
    and "\<forall>kv\<in>set (requestCache st). fst kv \<noteq> [] \<and> timestamp (snd kv) \<le> now"
  shows "\<exists>victim e. (victim, e) \<in> set (requestCache st)
           \<and> (\<forall>kv\<in>set (requestCache st). notAfter e (snd kv))
           \<and> evictLeastRecentlyUsed now st =
               st\<lparr>cacheMetrics := (cacheMetrics st)\<lparr>evictions := evictions (cacheMetrics st) + 1\<rparr>,
                  requestCache := Map_delete victim (requestCache st)\<rparr>
           \<and> Suc (length (Map_delete victim (requestCache st))) = length (requestCache st)"
proof -
  have "\<forall>kv\<in>set (requestCache st). timestamp (snd kv) \<le> now" using assms(3) by simp
  from lruScan_finds_least[OF assms(1) this]
  obtain k e where s: "lruScan (requestCache st) (None, now, None) =
                        (Some k, timestamp e, Some (accessCount e))"
    and m: "(k, e) \<in> set (requestCache st)"
    and l: "\<forall>kv\<in>set (requestCache st). notAfter e (snd kv)"
    by blast
  have ne: "k \<noteq> []" using assms(3) m by force
  have "k \<in> fst ` set (requestCache st)" using m by force
  then have len: "Suc (length (Map_delete k (requestCache st))) = length (requestCache st)"
    using assms(2) by (simp add: length_Map_delete_present)
  have "evictLeastRecentlyUsed now st =
               st\<lparr>cacheMetrics := (cacheMetrics st)\<lparr>evictions := evictions (cacheMetrics st) + 1\<rparr>,
                  requestCache := Map_delete k (requestCache st)\<rparr>"
    using s ne by (simp add: evictLeastRecentlyUsed_def)
  with m l len show ?thesis by blast
qed


lemma ball_Map_set:
  assumes "P (k, v)" and "\<forall>kv\<in>set kvs. P kv"
  shows "\<forall>kv\<in>set (Map_set k v kvs). P kv"
proof
  fix kv assume "kv \<in> set (Map_set k v kvs)"
  with set_Map_set[of k v kvs] have "kv = (k, v) \<or> kv \<in> set kvs" by blast
  with assms show "P kv" by blast
qed

lemma requestCache_evict_subset:
  "set (requestCache (evictLeastRecentlyUsed now st)) \<subseteq> set (requestCache st)"
  using set_Map_delete by (auto simp: evictLeastRecentlyUsed_def split: prod.splits option.splits)

lemma requestCache_evict_distinct:
  "distinct (map fst (requestCache st)) \<Longrightarrow>
   distinct (map fst (requestCache (evictLeastRecentlyUsed now st)))"
  by (auto simp: evictLeastRecentlyUsed_def distinct_Map_delete split: prod.splits option.splits)

lemma cacheInv_setCachedResponse:
  assumes inv: "cacheInv cfg t st" and t: "t \<le> now" and key: "key \<noteq> []"
    and cap: "1 \<le> maxCacheSize cfg"
  shows "cacheInv cfg now (setCachedResponse cfg now key v st)"
proof -
  let ?new = "\<lparr>response = v, timestamp = now, accessCount = 1\<rparr>"
  define st' where "st' = (if int (length (requestCache st)) \<ge> maxCacheSize cfg
                          then evictLeastRecentlyUsed now st else st)"
  have res: "requestCache (setCachedResponse cfg now key v st) = Map_set key ?new (requestCache st')"
    by (simp add: setCachedResponse_def st'_def Let_def)
  have d: "distinct (map fst (requestCache st))"
    and e: "\<forall>kv\<in>set (requestCache st). fst kv \<noteq> [] \<and> timestamp (snd kv) \<le> now"
    and l: "int (length (requestCache st)) \<le> maxCacheSize cfg"
    using inv t by (auto simp: cacheInv_def)
  have sub: "set (requestCache st') \<subseteq> set (requestCache st)"
    using requestCache_evict_subset by (auto simp: st'_def)
  have d': "distinct (map fst (requestCache st'))"
    using d requestCache_evict_distinct by (simp add: st'_def)
  have l': "int (length (requestCache st')) < maxCacheSize cfg"
  proof (cases "int (length (requestCache st)) \<ge> maxCacheSize cfg")
    case False
    then show ?thesis by (simp add: st'_def)
  next
    case True
    with cap have ne: "requestCache st \<noteq> []" by auto
    from evictLeastRecentlyUsed_evicts[OF ne d e]
    obtain victim where
      ev: "evictLeastRecentlyUsed now st =
               st\<lparr>cacheMetrics := (cacheMetrics st)\<lparr>evictions := evictions (cacheMetrics st) + 1\<rparr>,
                  requestCache := Map_delete victim (requestCache st)\<rparr>"
      and len: "Suc (length (Map_delete victim (requestCache st))) = length (requestCache st)"
      by blast
    have "requestCache st' = Map_delete victim (requestCache st)"
      using True ev by (simp add: st'_def)
    with len l show ?thesis by simp
  qed
  have "distinct (map fst (Map_set key ?new (requestCache st')))"
    using d' by (rule distinct_Map_set)
  moreover have "\<forall>kv\<in>set (Map_set key ?new (requestCache st')).
                   fst kv \<noteq> [] \<and> timestamp (snd kv) \<le> now"
  proof (rule ball_Map_set)
    show "fst (key, ?new) \<noteq> [] \<and> timestamp (snd (key, ?new)) \<le> now" using key by simp
    show "\<forall>kv\<in>set (requestCache st'). fst kv \<noteq> [] \<and> timestamp (snd kv) \<le> now"
      using sub e by blast
  qed
  moreover have "int (length (Map_set key ?new (requestCache st'))) \<le> maxCacheSize cfg"
    using length_Map_set_le[of key ?new "requestCache st'"] l' by simp
  ultimately show ?thesis
    unfolding cacheInv_def res by simp
qed

lemma cacheInv_getCachedResponse:
  assumes inv: "cacheInv cfg t st" and t: "t \<le> now"
  shows "cacheInv cfg now (snd (getCachedResponse cfg now key st))"
proof -
  have d: "distinct (map fst (requestCache st))"
    and e: "\<forall>kv\<in>set (requestCache st). fst kv \<noteq> [] \<and> timestamp (snd kv) \<le> now"
    and l: "int (length (requestCache st)) \<le> maxCacheSize cfg"
    using inv t by (auto simp: cacheInv_def)
  show ?thesis
  proof (cases "map_of (requestCache st) key")
    case None
    from getCachedResponse_absent[OF None] d e l show ?thesis
      by (simp add: cacheInv_def)
  next
    case (Some cached)
    then have m: "(key, cached) \<in> set (requestCache st)" by (rule map_of_SomeD)
    then have p: "key \<in> fst ` set (requestCache st)" by force
    show ?thesis
    proof (cases "now - timestamp cached < cacheTtl cfg")
      case True
      let ?c = "cached\<lparr>accessCount := accessCount cached + 1\<rparr>"
      have "distinct (map fst (Map_set key ?c (requestCache st)))"
        using d by (rule distinct_Map_set)
      moreover have "\<forall>kv\<in>set (Map_set key ?c (requestCache st)).
                   fst kv \<noteq> [] \<and> timestamp (snd kv) \<le> now"
      proof (rule ball_Map_set)
        show "fst (key, ?c) \<noteq> [] \<and> timestamp (snd (key, ?c)) \<le> now" using e m by force
        show "\<forall>kv\<in>set (requestCache st). fst kv \<noteq> [] \<and> timestamp (snd kv) \<le> now"
          using e .
      qed
      moreover have "int (length (Map_set key ?c (requestCache st))) \<le> maxCacheSize cfg"
        using length_Map_set_present[OF p] l by simp
      ultimately show ?thesis
        using getCachedResponse_hit[OF Some True] by (simp add: cacheInv_def)
    next
      case False
      then have ex: "cacheTtl cfg \<le> now - timestamp cached" by simp
      have "distinct (map fst (Map_delete key (requestCache st)))"
        using d by (rule distinct_Map_delete)
      moreover have "\<forall>kv\<in>set (Map_delete key (requestCache st)).
                   fst kv \<noteq> [] \<and> timestamp (snd kv) \<le> now"
        using set_Map_delete[of key "requestCache st"] e by blast
      moreover have "int (length (Map_delete key (requestCache st))) \<le> maxCacheSize cfg"
        using length_Map_delete_le[of key "requestCache st"] l by simp
      ultimately show ?thesis
        using getCachedResponse_expired[OF Some ex] by (simp add: cacheInv_def)
    qed
  qed
qed

lemma cacheInv_cacheOps:
  assumes "cacheInv cfg t st" and "sorted (t # map fst ops)"
    and "\<forall>op\<in>set ops. opKey (snd op) \<noteq> []" and "1 \<le> maxCacheSize cfg"
  shows "cacheInv cfg (last (t # map fst ops)) (cacheOps cfg ops st)"
  using assms
proof (induction ops arbitrary: t st)
  case Nil
  then show ?case by simp
next
  case (Cons op ops)
  obtain now c where op: "op = (now, c)" by (cases op)
  have t: "t \<le> now" using Cons.prems(2) by (simp add: op)
  have step: "cacheInv cfg now (cacheOp cfg op st)"
  proof (cases c)
    case (Get key)
    with cacheInv_getCachedResponse[OF Cons.prems(1) t] show ?thesis by (simp add: op)
  next
    case (Put key v)
    with Cons.prems(3) have "key \<noteq> []" by (simp add: op)
    from cacheInv_setCachedResponse[OF Cons.prems(1) t this Cons.prems(4)] Put
    show ?thesis by (simp add: op)
  qed
  have s: "sorted (now # map fst ops)" using Cons.prems(2) by (simp add: op)
  have k: "\<forall>op\<in>set ops. opKey (snd op) \<noteq> []" using Cons.prems(3) by simp
  from Cons.IH[OF step s k Cons.prems(4)] show ?case by (simp add: op)
qed

lemma cacheInv_initialState: "0 \<le> maxCacheSize cfg \<Longrightarrow> cacheInv cfg t initialState"
  by (simp add: cacheInv_def initialState_def)

lemma cacheInv_mono: "cacheInv cfg t st \<Longrightarrow> t \<le> now \<Longrightarrow> cacheInv cfg now st"
  by (auto simp: cacheInv_def)


lemma cacheInv_reached:
  assumes "1 \<le> maxCacheSize cfg" and "sorted (map fst ops)"
    and "\<forall>op\<in>set ops. opKey (snd op) \<noteq> []" and "\<forall>op\<in>set ops. fst op \<le> now"
  shows "cacheInv cfg now (cacheOps cfg ops initialState)"
proof (cases ops)
  case Nil
  with assms(1) show ?thesis by (simp add: cacheInv_initialState)
next
  case (Cons op rest)
  let ?t = "fst op"
  have i: "cacheInv cfg ?t initialState" using assms(1) by (simp add: cacheInv_initialState)
  have s: "sorted (?t # map fst ops)" using assms(2) by (simp add: Cons)
  have "cacheInv cfg (last (?t # map fst ops)) (cacheOps cfg ops initialState)"
    using cacheInv_cacheOps[OF i s assms(3) assms(1)] .
  moreover have "last (?t # map fst ops) \<le> now"
    using assms(4) by (simp add: Cons last_map)
  ultimately show ?thesis by (rule cacheInv_mono)
qed

text \<open>
  Claim C6, as the code has it. Take a capacity of at least 1 and any sequence of lookups
  and stores, started on the empty cache, whose clock readings do not decrease and whose
  keys are not empty (the keys \<^verbatim>\<open>callTool\<close> and \<^verbatim>\<open>consultAllAdvisors\<close> build never are).
  After every prefix of the sequence the cache holds at most \<open>maxCacheSize\<close> entries. A
  store made afterwards on a cache that is at capacity removes exactly one entry, one that
  is \<open>notAfter\<close> every entry of the cache (lowest timestamp, then lowest access count),
  adds one to the eviction counter, and then sets the new entry.
\<close>

theorem cache_capacity:
  assumes "1 \<le> maxCacheSize cfg" and "sorted (map fst ops)"
    and "\<forall>op\<in>set ops. opKey (snd op) \<noteq> []"
  shows "(\<forall>n. int (length (requestCache (cacheOps cfg (take n ops) initialState))) \<le> maxCacheSize cfg)
    \<and> ((\<forall>op\<in>set ops. fst op \<le> now) \<and>
        maxCacheSize cfg \<le> int (length (requestCache (cacheOps cfg ops initialState))) \<longrightarrow>
        (let st = cacheOps cfg ops initialState in
         \<exists>victim e. (victim, e) \<in> set (requestCache st)
           \<and> (\<forall>kv\<in>set (requestCache st). notAfter e (snd kv))
           \<and> Suc (length (Map_delete victim (requestCache st))) = length (requestCache st)
           \<and> setCachedResponse cfg now key v st =
               st\<lparr>cacheMetrics := (cacheMetrics st)\<lparr>evictions := evictions (cacheMetrics st) + 1\<rparr>,
                  requestCache := Map_set key \<lparr>response = v, timestamp = now, accessCount = 1\<rparr>
                                    (Map_delete victim (requestCache st))\<rparr>))"
proof (intro conjI allI impI)
  fix n
  let ?ops = "take n ops"
  obtain t where t: "\<forall>op\<in>set ?ops. fst op \<le> t"
  proof
    show "\<forall>op\<in>set ?ops. fst op \<le> Max (insert 0 (fst ` set ?ops))" by simp
  qed
  have s: "sorted (map fst ?ops)"
    using sorted_wrt_take[of "(\<le>)" "map fst ops" n] assms(2) by (simp add: take_map)
  have k: "\<forall>op\<in>set ?ops. opKey (snd op) \<noteq> []"
    using assms(3) by (meson in_set_takeD)
  from cacheInv_reached[OF assms(1) s k t]
  show "int (length (requestCache (cacheOps cfg ?ops initialState))) \<le> maxCacheSize cfg"
    by (simp add: cacheInv_def)
next
  assume h: "(\<forall>op\<in>set ops. fst op \<le> now) \<and>
        maxCacheSize cfg \<le> int (length (requestCache (cacheOps cfg ops initialState)))"
  define st where "st = cacheOps cfg ops initialState"
  have full: "maxCacheSize cfg \<le> int (length (requestCache st))" using h by (simp add: st_def)
  have inv: "cacheInv cfg now st"
    unfolding st_def using assms h by (intro cacheInv_reached) simp_all
  have ne: "requestCache st \<noteq> []" using full assms(1) by auto
  have d: "distinct (map fst (requestCache st))"
    and e: "\<forall>kv\<in>set (requestCache st). fst kv \<noteq> [] \<and> timestamp (snd kv) \<le> now"
    using inv by (auto simp: cacheInv_def)
  from evictLeastRecentlyUsed_evicts[OF ne d e]
  obtain victim e where m: "(victim, e) \<in> set (requestCache st)"
    and l: "\<forall>kv\<in>set (requestCache st). notAfter e (snd kv)"
    and ev: "evictLeastRecentlyUsed now st =
               st\<lparr>cacheMetrics := (cacheMetrics st)\<lparr>evictions := evictions (cacheMetrics st) + 1\<rparr>,
                  requestCache := Map_delete victim (requestCache st)\<rparr>"
    and len: "Suc (length (Map_delete victim (requestCache st))) = length (requestCache st)"
    by blast
  have "setCachedResponse cfg now key v st =
               st\<lparr>cacheMetrics := (cacheMetrics st)\<lparr>evictions := evictions (cacheMetrics st) + 1\<rparr>,
                  requestCache := Map_set key \<lparr>response = v, timestamp = now, accessCount = 1\<rparr>
                                    (Map_delete victim (requestCache st))\<rparr>"
    using full ev by (simp add: setCachedResponse_def)
  with m l len have "\<exists>victim e. (victim, e) \<in> set (requestCache st)
           \<and> (\<forall>kv\<in>set (requestCache st). notAfter e (snd kv))
           \<and> Suc (length (Map_delete victim (requestCache st))) = length (requestCache st)
           \<and> setCachedResponse cfg now key v st =
               st\<lparr>cacheMetrics := (cacheMetrics st)\<lparr>evictions := evictions (cacheMetrics st) + 1\<rparr>,
                  requestCache := Map_set key \<lparr>response = v, timestamp = now, accessCount = 1\<rparr>
                                    (Map_delete victim (requestCache st))\<rparr>"
    by blast
  then show "let st = cacheOps cfg ops initialState in
         \<exists>victim e. (victim, e) \<in> set (requestCache st)
           \<and> (\<forall>kv\<in>set (requestCache st). notAfter e (snd kv))
           \<and> Suc (length (Map_delete victim (requestCache st))) = length (requestCache st)
           \<and> setCachedResponse cfg now key v st =
               st\<lparr>cacheMetrics := (cacheMetrics st)\<lparr>evictions := evictions (cacheMetrics st) + 1\<rparr>,
                  requestCache := Map_set key \<lparr>response = v, timestamp = now, accessCount = 1\<rparr>
                                    (Map_delete victim (requestCache st))\<rparr>"
    unfolding st_def Let_def .
qed

lemma fillCache_state:
  "cacheOps cfg0 fillCache initialState =
     \<lparr>requestCache =
        [(''google:a:'', \<lparr>response = ''x'', timestamp = 1, accessCount = 2\<rparr>),
         (''google:b:'', \<lparr>response = ''y'', timestamp = 2, accessCount = 1\<rparr>)],
      cacheMetrics = \<lparr>hits = 1, misses = 0, evictions = 0, totalRequests = 1\<rparr>,
      rateLimitTracker = Map.empty\<rparr>"
  by (simp add: fillCache_def cfg0_def initialState_def setCachedResponse_def
      getCachedResponse_def Let_def)

theorem cache_capacity_witness:
  "(\<forall>n. int (length (requestCache (cacheOps cfg0 (take n fillCache) initialState))) \<le> 2)
   \<and> (\<exists>victim e. (victim, e) \<in> set (requestCache (cacheOps cfg0 fillCache initialState))
         \<and> (\<forall>kv\<in>set (requestCache (cacheOps cfg0 fillCache initialState)). notAfter e (snd kv))
         \<and> requestCache (setCachedResponse cfg0 4 ''google:c:'' ''z'' (cacheOps cfg0 fillCache initialState))
             = Map_set ''google:c:'' \<lparr>response = ''z'', timestamp = 4, accessCount = 1\<rparr>
                 (Map_delete victim (requestCache (cacheOps cfg0 fillCache initialState)))
         \<and> evictions (cacheMetrics (setCachedResponse cfg0 4 ''google:c:'' ''z''
               (cacheOps cfg0 fillCache initialState))) = 1)"
proof -
  have c: "maxCacheSize cfg0 = 2" by (simp add: cfg0_def)
  have h1: "1 \<le> maxCacheSize cfg0" by (simp add: c)
  have h2: "sorted (map fst fillCache)" by (simp add: fillCache_def)
  have h3: "\<forall>op\<in>set fillCache. opKey (snd op) \<noteq> []" by (simp add: fillCache_def)
  have h4: "\<forall>op\<in>set fillCache. fst op \<le> 4" by (simp add: fillCache_def)
  have h5: "maxCacheSize cfg0 \<le> int (length (requestCache (cacheOps cfg0 fillCache initialState)))"
    by (simp add: fillCache_state c)
  have e0: "evictions (cacheMetrics (cacheOps cfg0 fillCache initialState)) = 0"
    by (simp add: fillCache_state)
  from cache_capacity[OF h1 h2 h3, of 4 "''google:c:''" "''z''"] h4 h5
  obtain victim e where
    "\<forall>n. int (length (requestCache (cacheOps cfg0 (take n fillCache) initialState))) \<le> 2"
    "(victim, e) \<in> set (requestCache (cacheOps cfg0 fillCache initialState))"
    "\<forall>kv\<in>set (requestCache (cacheOps cfg0 fillCache initialState)). notAfter e (snd kv)"
    "setCachedResponse cfg0 4 ''google:c:'' ''z'' (cacheOps cfg0 fillCache initialState) =
       (cacheOps cfg0 fillCache initialState)
         \<lparr>cacheMetrics := (cacheMetrics (cacheOps cfg0 fillCache initialState))
            \<lparr>evictions := evictions (cacheMetrics (cacheOps cfg0 fillCache initialState)) + 1\<rparr>,
          requestCache := Map_set ''google:c:'' \<lparr>response = ''z'', timestamp = 4, accessCount = 1\<rparr>
             (Map_delete victim (requestCache (cacheOps cfg0 fillCache initialState)))\<rparr>"
    unfolding Let_def c by blast
  then show ?thesis using e0 by (intro conjI exI[of _ victim] exI[of _ e]) simp_all
qed

text \<open>
  With \<open>maxCacheSize = 0\<close> the first store finds nothing to evict and still inserts: the
  cache then holds one entry, more than its capacity, and no eviction is counted.
\<close>

theorem cache_capacity_counterexample:
  "maxCacheSize cfgNoRoom = 0
   \<and> length (requestCache (setCachedResponse cfgNoRoom 1 ''google:a:'' ''x'' initialState)) = 1
   \<and> evictions (cacheMetrics (setCachedResponse cfgNoRoom 1 ''google:a:'' ''x'' initialState)) = 0"
  by (simp add: cfgNoRoom_def cfg0_def initialState_def setCachedResponse_def
      evictLeastRecentlyUsed_def)

section \<open>Properties of the entry point\<close>

lemma retryFrom_outcome:
  "outcome (retryFrom cfg call a le w) = Inl e \<Longrightarrow>
   \<exists>msg cs. e = SmartAdvisorError msg ''CLIENT_ERROR'' cs \<or>
            e = SmartAdvisorError msg ''MAX_RETRIES_EXCEEDED'' cs"
proof (induction cfg call a le w rule: retryFrom.induct)
  case (1 cfg call attempt lastError waited)
  show ?case
  proof (cases "int attempt < maxRetries cfg")
    case False
    with "1.prems" show ?thesis by (subst (asm) retryFrom.simps) auto
  next
    case True
    show ?thesis
    proof (cases "callOpenRouter (call attempt)")
      case (Inr answer)
      with True "1.prems" show ?thesis by (subst (asm) retryFrom.simps) simp
    next
      case (Inl err)
      show ?thesis
      proof (cases "clientErrorStatus err")
        case (Some s)
        with True Inl "1.prems" show ?thesis
          by (subst (asm) retryFrom.simps) (auto split: prod.splits)
      next
        case None
        from "1.prems" have "outcome (retryFrom cfg call (attempt + 1) (Some err)
                 (if int attempt < maxRetries cfg - 1 then waited @ [2 ^ attempt * 1000] else waited))
               = Inl e"
          using True Inl None by (subst (asm) retryFrom.simps) simp
        with "1.IH"[OF True Inl None] show ?thesis .
      qed
    qed
  qed
qed

lemma posts_retryFrom_lower:
  "a \<le> posts (retryFrom cfg call a le w) \<and>
   (int a < maxRetries cfg \<longrightarrow> a < posts (retryFrom cfg call a le w))"
proof (induction cfg call a le w rule: retryFrom.induct)
  case (1 cfg call attempt lastError waited)
  show ?case
  proof (cases "int attempt < maxRetries cfg")
    case False
    then show ?thesis by (subst retryFrom.simps, subst retryFrom.simps) simp
  next
    case True
    show ?thesis
    proof (cases "callOpenRouter (call attempt)")
      case (Inr answer)
      with True show ?thesis by (subst retryFrom.simps, subst retryFrom.simps) simp
    next
      case (Inl err)
      show ?thesis
      proof (cases "clientErrorStatus err")
        case (Some s)
        with True Inl show ?thesis
          by (subst retryFrom.simps, subst retryFrom.simps) (simp split: prod.splits)
      next
        case None
        have eq: "retryFrom cfg call attempt lastError waited =
              retryFrom cfg call (attempt + 1) (Some err)
                 (if int attempt < maxRetries cfg - 1 then waited @ [2 ^ attempt * 1000] else waited)"
          using True Inl None by (subst retryFrom.simps) simp
        from "1.IH"[OF True Inl None] show ?thesis unfolding eq by simp
      qed
    qed
  qed
qed

lemma dispatch_alwaysAnswers:
  "1 \<le> maxRetries cfg \<Longrightarrow>
   callOpenRouterWithRetry cfg alwaysAnswers = \<lparr>outcome = Inr ''answer'', posts = 1, delays = []\<rparr>"
  by (simp add: callOpenRouterWithRetry_def retryFrom.simps[of cfg alwaysAnswers 0] alwaysAnswers_def)

lemma dispatch_alwaysDown:
  "maxRetries cfg = 3 \<Longrightarrow>
   callOpenRouterWithRetry cfg alwaysDown =
     \<lparr>outcome = Inl (SmartAdvisorError (''Failed after '' @ showInt 3 @ '' attempts: timeout'')
        ''MAX_RETRIES_EXCEEDED'' (Some (Error ''timeout''))),
      posts = 3, delays = [1000, 2000]\<rparr>"
  by (simp add: callOpenRouterWithRetry_def retryFrom.simps[of cfg alwaysDown] alwaysDown_def)

text \<open>
  Claim C1, as the code has it. \<^verbatim>\<open>callOpenRouterWithRetry\<close> consults no circuit breaker:
  what it does is determined by the configuration and the outcomes of its own requests.
  With \<open>maxRetries\<close> of at least 1 it always posts at least one request, and when it
  fails, its error is a \<^verbatim>\<open>CLIENT_ERROR\<close> or a \<^verbatim>\<open>MAX_RETRIES_EXCEEDED\<close>; there is no
  error kind for an unavailable provider.
\<close>

theorem dispatch_without_breaker:
  "(1 \<le> maxRetries cfg \<longrightarrow> 1 \<le> posts (callOpenRouterWithRetry cfg call))
   \<and> (outcome (callOpenRouterWithRetry cfg call) = Inl e \<longrightarrow>
        code e = Some ''CLIENT_ERROR'' \<or> code e = Some ''MAX_RETRIES_EXCEEDED'')"
proof (intro conjI impI)
  assume "1 \<le> maxRetries cfg"
  then have "int 0 < maxRetries cfg" by simp
  with posts_retryFrom_lower[of 0 cfg call None "[]"]
  show "1 \<le> posts (callOpenRouterWithRetry cfg call)"
    by (simp add: callOpenRouterWithRetry_def)
next
  assume "outcome (callOpenRouterWithRetry cfg call) = Inl e"
  then have "outcome (retryFrom cfg call 0 None []) = Inl e"
    by (simp add: callOpenRouterWithRetry_def)
  from retryFrom_outcome[OF this]
  show "code e = Some ''CLIENT_ERROR'' \<or> code e = Some ''MAX_RETRIES_EXCEEDED''" by auto
qed

theorem dispatch_without_breaker_witness:
  "1 \<le> maxRetries cfg0
   \<and> 1 \<le> posts (callOpenRouterWithRetry cfg0 alwaysDown)
   \<and> code (SmartAdvisorError (''Failed after '' @ showInt 3 @ '' attempts: timeout'')
        ''MAX_RETRIES_EXCEEDED'' (Some (Error ''timeout''))) = Some ''MAX_RETRIES_EXCEEDED''"
proof -
  have m: "maxRetries cfg0 = 3" by (simp add: cfg0_def)
  have o: "outcome (callOpenRouterWithRetry cfg0 alwaysDown) =
      Inl (SmartAdvisorError (''Failed after '' @ showInt 3 @ '' attempts: timeout'')
        ''MAX_RETRIES_EXCEEDED'' (Some (Error ''timeout'')))"
    by (simp add: dispatch_alwaysDown[OF m])
  from dispatch_without_breaker[of cfg0 alwaysDown, OF] m o show ?thesis by simp
qed

text \<open>
  A provider whose breaker, as the spec describes it, is \<open>OPEN\<close> since time 0 after five
  consecutive failures, with a recovery timeout of 60000 that has not elapsed at time
  1000: a dispatch to that provider still posts three requests and fails with
  \<^verbatim>\<open>MAX_RETRIES_EXCEEDED\<close>.
\<close>

theorem open_breaker_counterexample:
  "rejectsCalls 60000 1000
     \<lparr>circuitState = OPEN, consecutiveFailures = 5, lastTransitionTime = 0\<rparr>
   \<and> posts (callOpenRouterWithRetry cfg0 alwaysDown) = 3
   \<and> thrownCode (outcome (callOpenRouterWithRetry cfg0 alwaysDown)) = Some ''MAX_RETRIES_EXCEEDED''"
proof -
  have m: "maxRetries cfg0 = 3" by (simp add: cfg0_def)
  show ?thesis
    by (simp add: dispatch_alwaysDown[OF m] rejectsCalls_def thrownCode_def)
qed

lemma consultAllAdvisors_returns:
  "\<exists>answer. fst (consultAllAdvisors cfg env t ctx tool st) = Inr answer"
  by (simp add: consultAllAdvisors_def Let_def split: prod.splits option.splits)

lemma getCachedResponse_tracker:
  "getCachedResponse cfg now key (st\<lparr>rateLimitTracker := tr\<rparr>) =
     (fst (getCachedResponse cfg now key st),
      (snd (getCachedResponse cfg now key st))\<lparr>rateLimitTracker := tr\<rparr>)"
  by (simp add: getCachedResponse_def Let_def split: option.splits)

lemma routeToOptimalProvider_all:
  "(fst (routeToOptimalProvider env strategy) = ''all'') = (strategy = ''all'')"
  by (auto simp: routeToOptimalProvider_def Let_def split: sum.splits)

lemma answerFromProvider_failure:
  assumes "fst (answerFromProvider cfg env sel t c routed st0) = Inl err"
  shows "truthy (fst (getCachedResponse cfg (nowCacheGet env) (sel @ '':'' @ t @ '':'' @ c) st0)) = None
       \<and> fst (snd (answerFromProvider cfg env sel t c routed st0)) =
           snd (getCachedResponse cfg (nowCacheGet env) (sel @ '':'' @ t @ '':'' @ c) st0)
       \<and> outcome (callOpenRouterWithRetry cfg (http env (lookupOrUndefined MODELS sel))) = Inl err"
proof -
  let ?key = "sel @ '':'' @ t @ '':'' @ c"
  let ?d = "callOpenRouterWithRetry cfg (http env (lookupOrUndefined MODELS sel))"
  obtain cached st1 where lk: "getCachedResponse cfg (nowCacheGet env) ?key st0 = (cached, st1)"
    by (cases "getCachedResponse cfg (nowCacheGet env) ?key st0")
  have miss: "truthy cached = None"
  proof (cases "truthy cached")
    case None
    then show ?thesis .
  next
    case (Some answer)
    with assms lk show ?thesis by (simp add: answerFromProvider_def)
  qed
  show ?thesis
  proof (cases "outcome ?d")
    case (Inr answer)
    with assms lk miss show ?thesis by (simp add: answerFromProvider_def Let_def)
  next
    case (Inl e)
    then have "outcome (retryFrom cfg (http env (lookupOrUndefined MODELS sel)) 0 None []) = Inl e"
      by (simp add: callOpenRouterWithRetry_def)
    from retryFrom_outcome[OF this] obtain msg cd cs where e: "e = SmartAdvisorError msg cd cs"
      by blast
    from assms lk miss Inl[unfolded e] show ?thesis by (auto simp: answerFromProvider_def Let_def)
  qed
qed

lemma callTool_failure_cases:
  assumes "fst (callTool cfg env name args st) = Inl err"
  shows "(\<exists>msg c. err = SmartAdvisorError msg c None \<and>
            c \<in> {''RATE_LIMIT_EXCEEDED'', ''UNKNOWN_TOOL'', ''INVALID_INPUT'', ''UNKNOWN_STRATEGY'',
                 ''INVALID_PROVIDER''} \<and>
            requestCache (fst (snd (callTool cfg env name args st))) = requestCache st \<and>
            (c = ''RATE_LIMIT_EXCEEDED'') =
              (\<not> fst (checkRateLimit cfg (nowRateLimit env) ''default'' (rateLimitTracker st))))
       \<or> (fst (checkRateLimit cfg (nowRateLimit env) ''default'' (rateLimitTracker st)) \<and>
           model args \<noteq> ''all'' \<and>
           truthy (fst (getCachedResponse cfg (nowCacheGet env) (cacheKeyOf env args) st)) = None \<and>
           requestCache (fst (snd (callTool cfg env name args st))) =
             requestCache (snd (getCachedResponse cfg (nowCacheGet env) (cacheKeyOf env args) st)) \<and>
           outcome (callOpenRouterWithRetry cfg (http env
              (lookupOrUndefined MODELS (fst (routeToOptimalProvider env (model args)))))) = Inl err)"
proof -
  obtain admitted tr where
    chk: "checkRateLimit cfg (nowRateLimit env) ''default'' (rateLimitTracker st) = (admitted, tr)"
    by (cases "checkRateLimit cfg (nowRateLimit env) ''default'' (rateLimitTracker st)")
  obtain sel routed where rt: "routeToOptimalProvider env (model args) = (sel, routed)"
    by (cases "routeToOptimalProvider env (model args)")
  have all: "(sel = ''all'') = (model args = ''all'')"
    using routeToOptimalProvider_all[of env "model args"] rt by simp
  define ctx where "ctx = (case context' args of Some c \<Rightarrow> c | None \<Rightarrow> [])"
  define st0 where "st0 = st\<lparr>rateLimitTracker := tr\<rparr>"
  have fstchk: "fst (checkRateLimit cfg (nowRateLimit env) ''default'' (rateLimitTracker st)) = admitted"
    by (simp add: chk)
  have gate: ?thesis
    if ct: "callTool cfg env name args st = (Inl (SmartAdvisorError msg c None), st0, posted)"
      and c: "c \<in> {''RATE_LIMIT_EXCEEDED'', ''UNKNOWN_TOOL'', ''INVALID_INPUT'', ''UNKNOWN_STRATEGY'',
                 ''INVALID_PROVIDER''}"
      and r: "(c = ''RATE_LIMIT_EXCEEDED'') = (\<not> admitted)"
    for msg c posted
  proof -
    from assms ct have e: "err = SmartAdvisorError msg c None" by simp
    have rc: "requestCache (fst (snd (callTool cfg env name args st))) = requestCache st"
      by (simp add: ct st0_def)
    have "err = SmartAdvisorError msg c None \<and>
            c \<in> {''RATE_LIMIT_EXCEEDED'', ''UNKNOWN_TOOL'', ''INVALID_INPUT'', ''UNKNOWN_STRATEGY'',
                 ''INVALID_PROVIDER''} \<and>
            requestCache (fst (snd (callTool cfg env name args st))) = requestCache st \<and>
            (c = ''RATE_LIMIT_EXCEEDED'') =
              (\<not> fst (checkRateLimit cfg (nowRateLimit env) ''default'' (rateLimitTracker st)))"
      using e c rc r unfolding fstchk by (intro conjI)
    then show ?thesis by (intro disjI1 exI[of _ msg] exI[of _ c])
  qed
  show ?thesis
  proof (cases "\<not> admitted")
    case True
    show ?thesis
    proof (rule gate)
      show "callTool cfg env name args st =
        (Inl (SmartAdvisorError
          (''Rate limit exceeded. Maximum '' @ showInt (rateLimitRequests cfg) @
           '' requests per '' @ showThousandths (rateLimitWindow cfg) @ '' seconds'')
          ''RATE_LIMIT_EXCEEDED'' None), st0, [])"
        using True chk by (simp add: callTool_def st0_def)
    qed (use True in simp_all)
  next
    case adm: False
    show ?thesis
    proof (cases "name \<notin> set validTools")
      case True
      show ?thesis
      proof (rule gate)
        show "callTool cfg env name args st =
          (Inl (SmartAdvisorError (''Unknown tool: '' @ name) ''UNKNOWN_TOOL'' None), st0, [])"
          using True adm chk by (simp add: callTool_def st0_def)
      qed (use adm in simp_all)
    next
      case tool: False
      show ?thesis
      proof (cases "\<not> isValid (validateInput cfg env (task args) ctx)")
        case True
        show ?thesis
        proof (rule gate)
          show "callTool cfg env name args st =
            (Inl (SmartAdvisorError
               (case error (validateInput cfg env (task args) ctx) of
                  Some e \<Rightarrow> e | None \<Rightarrow> ''undefined'')
               ''INVALID_INPUT'' None), st0, [])"
            using True tool adm chk by (simp add: callTool_def st0_def ctx_def)
        qed (use adm in simp_all)
      next
        case valid: False
        show ?thesis
        proof (cases "model args \<notin> set ROUTING_STRATEGIES")
          case True
          show ?thesis
          proof (rule gate)
            show "callTool cfg env name args st =
              (Inl (SmartAdvisorError
                 (''Unknown routing strategy: '' @ model args @ ''. Available: '' @
                  joinWith '', '' ROUTING_STRATEGIES)
                 ''UNKNOWN_STRATEGY'' None), st0, [])"
              using True valid tool adm chk by (simp add: callTool_def st0_def ctx_def)
          qed (use adm in simp_all)
        next
          case strat: False
          show ?thesis
          proof (cases "sel = ''all''")
            case True
            obtain answer where "fst (consultAllAdvisors cfg env (sanitizeInput (task args))
                (sanitizeInput ctx) name st0) = Inr answer"
              using consultAllAdvisors_returns by blast
            with True adm tool valid strat assms chk rt have False
              by (simp add: callTool_def ctx_def st0_def split: prod.splits)
            then show ?thesis ..
          next
            case single: False
            show ?thesis
            proof (cases "sel \<notin> set (filter (\<lambda>k. k \<noteq> ''router'') (map fst MODELS))")
              case True
              show ?thesis
              proof (rule gate)
                show "callTool cfg env name args st =
                  (Inl (SmartAdvisorError (''Invalid provider selection: '' @ sel)
                     ''INVALID_PROVIDER'' None), st0, routed)"
                  using True single strat valid tool adm chk rt
                  by (simp add: callTool_def st0_def ctx_def)
              qed (use adm in simp_all)
            next
              case prov: False
              have ct: "callTool cfg env name args st =
                 answerFromProvider cfg env sel (sanitizeInput (task args)) (sanitizeInput ctx)
                   routed st0"
                using prov single adm tool valid strat chk rt
                by (simp add: callTool_def ctx_def st0_def)
              have key: "sel @ '':'' @ sanitizeInput (task args) @ '':'' @ sanitizeInput ctx
                         = cacheKeyOf env args"
                using rt by (simp add: cacheKeyOf_def ctx_def)
              from answerFromProvider_failure[of cfg env sel "sanitizeInput (task args)"
                  "sanitizeInput ctx" routed st0 err] assms ct
              have "truthy (fst (getCachedResponse cfg (nowCacheGet env) (cacheKeyOf env args) st0)) = None
                 \<and> fst (snd (callTool cfg env name args st)) =
                     snd (getCachedResponse cfg (nowCacheGet env) (cacheKeyOf env args) st0)
                 \<and> outcome (callOpenRouterWithRetry cfg (http env (lookupOrUndefined MODELS sel))) = Inl err"
                unfolding key by simp
              then show ?thesis
                using adm chk rt single all
                by (simp add: st0_def getCachedResponse_tracker)
            qed
          qed
        qed
      qed
    qed
  qed
qed

lemma callTool_eq:
  assumes "checkRateLimit cfg (nowRateLimit env) ''default'' (rateLimitTracker st) = (admitted, tr)"
    and "routeToOptimalProvider env (model args) = (sel, routed)"
  shows "callTool cfg env name args st =
     (if \<not> admitted then
        (Inl (SmartAdvisorError
          (''Rate limit exceeded. Maximum '' @ showInt (rateLimitRequests cfg) @
           '' requests per '' @ showThousandths (rateLimitWindow cfg) @ '' seconds'')
          ''RATE_LIMIT_EXCEEDED'' None), st\<lparr>rateLimitTracker := tr\<rparr>, [])
      else if name \<notin> set validTools then
        (Inl (SmartAdvisorError (''Unknown tool: '' @ name) ''UNKNOWN_TOOL'' None),
         st\<lparr>rateLimitTracker := tr\<rparr>, [])
      else if \<not> isValid (validateInput cfg env (task args)
                 (case context' args of Some c \<Rightarrow> c | None \<Rightarrow> [])) then
        (Inl (SmartAdvisorError
          (case error (validateInput cfg env (task args)
                 (case context' args of Some c \<Rightarrow> c | None \<Rightarrow> [])) of
             Some e \<Rightarrow> e | None \<Rightarrow> ''undefined'')
          ''INVALID_INPUT'' None), st\<lparr>rateLimitTracker := tr\<rparr>, [])
      else if model args \<notin> set ROUTING_STRATEGIES then
        (Inl (SmartAdvisorError
          (''Unknown routing strategy: '' @ model args @ ''. Available: '' @
           joinWith '', '' ROUTING_STRATEGIES)
          ''UNKNOWN_STRATEGY'' None), st\<lparr>rateLimitTracker := tr\<rparr>, [])
      else if sel = ''all'' then
        (fst (consultAllAdvisors cfg env (sanitizeInput (task args))
           (sanitizeInput (case context' args of Some c \<Rightarrow> c | None \<Rightarrow> [])) name
           (st\<lparr>rateLimitTracker := tr\<rparr>)),
         fst (snd (consultAllAdvisors cfg env (sanitizeInput (task args))
           (sanitizeInput (case context' args of Some c \<Rightarrow> c | None \<Rightarrow> [])) name
           (st\<lparr>rateLimitTracker := tr\<rparr>))),
         routed @ snd (snd (consultAllAdvisors cfg env (sanitizeInput (task args))
           (sanitizeInput (case context' args of Some c \<Rightarrow> c | None \<Rightarrow> [])) name
           (st\<lparr>rateLimitTracker := tr\<rparr>))))
      else if sel \<notin> set (filter (\<lambda>k. k \<noteq> ''router'') (map fst MODELS)) then
        (Inl (SmartAdvisorError (''Invalid provider selection: '' @ sel)
          ''INVALID_PROVIDER'' None), st\<lparr>rateLimitTracker := tr\<rparr>, routed)
      else answerFromProvider cfg env sel (sanitizeInput (task args))
             (sanitizeInput (case context' args of Some c \<Rightarrow> c | None \<Rightarrow> [])) routed
             (st\<lparr>rateLimitTracker := tr\<rparr>))"
  unfolding callTool_def assms Let_def by (simp split: prod.splits)

lemma tracker_getCachedResponse:
  "rateLimitTracker (snd (getCachedResponse cfg now key st)) = rateLimitTracker st"
  by (simp add: getCachedResponse_def Let_def split: option.splits)

lemma tracker_evictLeastRecentlyUsed:
  "rateLimitTracker (evictLeastRecentlyUsed now st) = rateLimitTracker st"
  by (simp add: evictLeastRecentlyUsed_def split: prod.splits option.splits)

lemma tracker_setCachedResponse:
  "rateLimitTracker (setCachedResponse cfg now key v st) = rateLimitTracker st"
  by (simp add: setCachedResponse_def Let_def tracker_evictLeastRecentlyUsed)

lemma tracker_consultAllAdvisors:
  "rateLimitTracker (fst (snd (consultAllAdvisors cfg env t ctx tool st))) = rateLimitTracker st"
proof -
  let ?key = "''all:'' @ t @ '':'' @ ctx @ '':'' @ tool"
  obtain cached st1 where lk: "getCachedResponse cfg (nowCacheGet env) ?key st = (cached, st1)"
    by (cases "getCachedResponse cfg (nowCacheGet env) ?key st")
  then have "rateLimitTracker st1 = rateLimitTracker st"
    using tracker_getCachedResponse[of cfg "nowCacheGet env" ?key st] by simp
  with lk show ?thesis
    by (cases "truthy cached")
       (simp_all add: consultAllAdvisors_def Let_def tracker_setCachedResponse)
qed

lemma tracker_answerFromProvider:
  "rateLimitTracker (fst (snd (answerFromProvider cfg env sel t c routed st))) = rateLimitTracker st"
proof -
  let ?key = "sel @ '':'' @ t @ '':'' @ c"
  let ?d = "callOpenRouterWithRetry cfg (http env (lookupOrUndefined MODELS sel))"
  obtain cached st1 where lk: "getCachedResponse cfg (nowCacheGet env) ?key st = (cached, st1)"
    by (cases "getCachedResponse cfg (nowCacheGet env) ?key st")
  then have tr: "rateLimitTracker st1 = rateLimitTracker st"
    using tracker_getCachedResponse[of cfg "nowCacheGet env" ?key st] by simp
  show ?thesis
  proof (cases "truthy cached")
    case (Some answer)
    with lk tr show ?thesis by (simp add: answerFromProvider_def)
  next
    case None
    show ?thesis
    proof (cases "outcome ?d")
      case (Inr answer)
      with None lk tr show ?thesis
        by (simp add: answerFromProvider_def Let_def tracker_setCachedResponse)
    next
      case (Inl e)
      with None lk tr show ?thesis
        by (cases e) (simp_all add: answerFromProvider_def Let_def)
    qed
  qed
qed

lemma tracker_callTool:
  "rateLimitTracker (fst (snd (callTool cfg env name args st))) =
     snd (checkRateLimit cfg (nowRateLimit env) ''default'' (rateLimitTracker st))"
proof -
  obtain admitted tr where
    chk: "checkRateLimit cfg (nowRateLimit env) ''default'' (rateLimitTracker st) = (admitted, tr)"
    by (cases "checkRateLimit cfg (nowRateLimit env) ''default'' (rateLimitTracker st)")
  obtain sel routed where rt: "routeToOptimalProvider env (model args) = (sel, routed)"
    by (cases "routeToOptimalProvider env (model args)")
  show ?thesis
    unfolding callTool_eq[OF chk rt] chk
    by (simp add: tracker_consultAllAdvisors tracker_answerFromProvider)
qed

lemma callTool_admitted:
  assumes "fst (callTool cfg env name args st) = Inr answer"
  shows "fst (checkRateLimit cfg (nowRateLimit env) ''default'' (rateLimitTracker st))"
proof -
  obtain admitted tr where
    chk: "checkRateLimit cfg (nowRateLimit env) ''default'' (rateLimitTracker st) = (admitted, tr)"
    by (cases "checkRateLimit cfg (nowRateLimit env) ''default'' (rateLimitTracker st)")
  obtain sel routed where rt: "routeToOptimalProvider env (model args) = (sel, routed)"
    by (cases "routeToOptimalProvider env (model args)")
  show ?thesis
  proof (cases admitted)
    case True
    with chk show ?thesis by simp
  next
    case False
    with assms show ?thesis unfolding callTool_eq[OF chk rt] by simp
  qed
qed

lemma callTool_envOk_google:
  assumes "maxRetries cfg = 3" and "0 \<le> maxTaskLength cfg" and "0 \<le> maxContextLength cfg"
    and "9 \<le> maxTaskLength cfg"
    and "fst (checkRateLimit cfg 10 ''default'' (rateLimitTracker st))"
    and "requestCache st = []"
  shows "fst (callTool cfg envOk name askGoogle st) =
           (if name \<in> set validTools then Inr ''answer''
            else Inl (SmartAdvisorError (''Unknown tool: '' @ name) ''UNKNOWN_TOOL'' None))"
proof -
  obtain tr where chk: "checkRateLimit cfg 10 ''default'' (rateLimitTracker st) = (True, tr)"
    using assms(5) by (cases "checkRateLimit cfg 10 ''default'' (rateLimitTracker st)") simp
  have d: "callOpenRouterWithRetry cfg alwaysAnswers =
             \<lparr>outcome = Inr ''answer'', posts = 1, delays = []\<rparr>"
    using assms(1) by (simp add: dispatch_alwaysAnswers)
  have rt: "routeToOptimalProvider envOk (model askGoogle) = (''google'', [])"
    by (simp add: routeToOptimalProvider_def askGoogle_def)
  have v: "isValid (validateInput cfg envOk (task askGoogle) [])"
    using assms(2-4) by (simp add: validateInput_def askGoogle_def envOk_def)
  have ct: "callTool cfg envOk name askGoogle st =
     (if name \<notin> set validTools then
        (Inl (SmartAdvisorError (''Unknown tool: '' @ name) ''UNKNOWN_TOOL'' None),
         st\<lparr>rateLimitTracker := tr\<rparr>, [])
      else answerFromProvider cfg envOk ''google'' (sanitizeInput (task askGoogle))
             (sanitizeInput []) [] (st\<lparr>rateLimitTracker := tr\<rparr>))"
    using callTool_eq[of cfg envOk st True tr askGoogle "''google''" "[]" name] chk rt v
    by (simp add: envOk_def askGoogle_def ROUTING_STRATEGIES_def MODELS_def)
  have "fst (answerFromProvider cfg envOk ''google'' (sanitizeInput (task askGoogle))
             (sanitizeInput []) [] (st\<lparr>rateLimitTracker := tr\<rparr>)) = Inr ''answer''"
    using assms(6) d
    by (simp add: answerFromProvider_def getCachedResponse_def Let_def envOk_def)
  with ct show ?thesis by simp
qed

text \<open>
  Claim C9, as the code has it. \<^verbatim>\<open>checkRateLimit\<close> keeps one window per client identity:
  a check for one identity leaves the window of every other identity as it was, and its
  verdict depends on the window of its own identity only. \<^verbatim>\<open>callTool\<close> never passes an
  identity, though: whatever the tool name and the arguments, the tracker after a call is
  the one left by the check of the identity \<^verbatim>\<open>'default'\<close>, and the call is refused with
  \<^verbatim>\<open>RATE_LIMIT_EXCEEDED\<close> exactly when that check refuses.
\<close>

theorem rate_limit_key:
  "(c' \<noteq> c \<longrightarrow> snd (checkRateLimit cfg now c tracker) c' = tracker c')
   \<and> (tracker c = tracker2 c \<longrightarrow>
        fst (checkRateLimit cfg now c tracker) = fst (checkRateLimit cfg now c tracker2))
   \<and> rateLimitTracker (fst (snd (callTool cfg env name args st))) =
        snd (checkRateLimit cfg (nowRateLimit env) ''default'' (rateLimitTracker st))
   \<and> (thrownCode (fst (callTool cfg env name args st)) = Some ''RATE_LIMIT_EXCEEDED'') =
        (\<not> fst (checkRateLimit cfg (nowRateLimit env) ''default'' (rateLimitTracker st)))"
proof (intro conjI impI)
  assume "c' \<noteq> c"
  then show "snd (checkRateLimit cfg now c tracker) c' = tracker c'"
    by (simp add: checkRateLimit_def split: option.splits)
next
  assume "tracker c = tracker2 c"
  then show "fst (checkRateLimit cfg now c tracker) = fst (checkRateLimit cfg now c tracker2)"
    by (simp add: checkRateLimit_def split: option.splits)
next
  show "rateLimitTracker (fst (snd (callTool cfg env name args st))) =
        snd (checkRateLimit cfg (nowRateLimit env) ''default'' (rateLimitTracker st))"
    by (rule tracker_callTool)
next
  let ?adm = "fst (checkRateLimit cfg (nowRateLimit env) ''default'' (rateLimitTracker st))"
  show "(thrownCode (fst (callTool cfg env name args st)) = Some ''RATE_LIMIT_EXCEEDED'') = (\<not> ?adm)"
  proof (cases "fst (callTool cfg env name args st)")
    case (Inr answer)
    from callTool_admitted[OF Inr] Inr show ?thesis by (simp add: thrownCode_def)
  next
    case (Inl err)
    from callTool_failure_cases[OF Inl]
    consider (gate) msg k where "err = SmartAdvisorError msg k None"
        "(k = ''RATE_LIMIT_EXCEEDED'') = (\<not> ?adm)"
      | (dispatch) "?adm" "outcome (callOpenRouterWithRetry cfg (http env
              (lookupOrUndefined MODELS (fst (routeToOptimalProvider env (model args)))))) = Inl err"
      by auto
    then show ?thesis
    proof cases
      case gate
      with Inl show ?thesis by (simp add: thrownCode_def)
    next
      case dispatch
      from dispatch(2) have "outcome (retryFrom cfg (http env
              (lookupOrUndefined MODELS (fst (routeToOptimalProvider env (model args))))) 0 None []) = Inl err"
        by (simp add: callOpenRouterWithRetry_def)
      from retryFrom_outcome[OF this] have "code err \<noteq> Some ''RATE_LIMIT_EXCEEDED''" by auto
      with dispatch(1) Inl show ?thesis by (simp add: thrownCode_def)
    qed
  qed
qed

theorem rate_limit_key_witness:
  "''code_review'' \<noteq> ''default''
   \<and> snd (checkRateLimit cfgOne 10 ''default'' Map.empty) ''code_review'' = None
   \<and> fst (checkRateLimit cfgOne 10 ''code_review'' [''default'' \<mapsto> \<lparr>count = 1, windowStart = 10\<rparr>])
       = fst (checkRateLimit cfgOne 10 ''code_review'' Map.empty)"
  using rate_limit_key[where c'="''code_review''" and c="''default''" and cfg=cfgOne and now=10
      and tracker=Map.empty and ?tracker2.0=Map.empty and env=envOk and name="''smart_advisor''"
      and args=askGoogle and st=initialState]
    rate_limit_key[where c'="''default''" and c="''code_review''" and cfg=cfgOne and now=10
      and tracker="[''default'' \<mapsto> \<lparr>count = 1, windowStart = 10\<rparr>]" and ?tracker2.0=Map.empty
      and env=envOk and name="''smart_advisor''" and args=askGoogle and st=initialState]
  by simp

text \<open>
  With a limit of one request per window, a call of the tool \<^verbatim>\<open>smart_advisor\<close> is admitted
  and answered, and a call of the different tool \<^verbatim>\<open>code_review\<close> made right after it is
  refused with \<^verbatim>\<open>RATE_LIMIT_EXCEEDED\<close>: the first caller has used up the window of the
  second.
\<close>

theorem shared_window_counterexample:
  "thrownCode (fst (callTool cfgOne envOk ''smart_advisor'' askGoogle initialState)) = None
   \<and> thrownCode (fst (callTool cfgOne envOk ''code_review'' askGoogle
        (fst (snd (callTool cfgOne envOk ''smart_advisor'' askGoogle initialState)))))
       = Some ''RATE_LIMIT_EXCEEDED''"
proof -
  have c: "maxRetries cfgOne = 3" "0 \<le> maxTaskLength cfgOne" "0 \<le> maxContextLength cfgOne"
     "9 \<le> maxTaskLength cfgOne"
    by (simp_all add: cfgOne_def cfg0_def)
  have a: "fst (checkRateLimit cfgOne 10 ''default'' (rateLimitTracker initialState))"
    by (simp add: checkRateLimit_def initialState_def)
  have e: "requestCache initialState = []" by (simp add: initialState_def)
  have first: "fst (callTool cfgOne envOk ''smart_advisor'' askGoogle initialState) = Inr ''answer''"
    using callTool_envOk_google[OF c a e, of "''smart_advisor''"] by (simp add: validTools_def)
  let ?st1 = "fst (snd (callTool cfgOne envOk ''smart_advisor'' askGoogle initialState))"
  have tr: "rateLimitTracker ?st1 = [''default'' \<mapsto> \<lparr>count = 1, windowStart = 10\<rparr>]"
    using tracker_callTool[of cfgOne envOk "''smart_advisor''" askGoogle initialState]
    by (simp add: checkRateLimit_def initialState_def envOk_def)
  have chk: "checkRateLimit cfgOne (nowRateLimit envOk) ''default'' (rateLimitTracker ?st1) =
      (False, [''default'' \<mapsto> \<lparr>count = 1, windowStart = 10\<rparr>])"
    unfolding tr by (simp add: checkRateLimit_def cfgOne_def cfg0_def envOk_def)
  obtain sel routed where rt: "routeToOptimalProvider envOk (model askGoogle) = (sel, routed)"
    by (cases "routeToOptimalProvider envOk (model askGoogle)")
  have second: "thrownCode (fst (callTool cfgOne envOk ''code_review'' askGoogle ?st1))
       = Some ''RATE_LIMIT_EXCEEDED''"
    unfolding callTool_eq[OF chk rt] by (simp add: thrownCode_def)
  from first second show ?thesis by (simp add: thrownCode_def)
qed

lemma showInt_3: "showInt 3 = ''3''"
  by code_simp

lemma routeToOptimalProvider_literal_all: "routeToOptimalProvider env ''all'' = (''all'', [])"
  by (simp add: routeToOptimalProvider_def)

lemma consultAllAdvisors_miss:
  assumes "truthy (fst (getCachedResponse cfg (nowCacheGet env)
             (''all:'' @ t @ '':'' @ ctx @ '':'' @ tool) st)) = None"
  shows "fst (consultAllAdvisors cfg env t ctx tool st) =
           Inr (formatMultiAdvisorResponse (map (\<lambda>km. fst (consultAdvisor cfg env km)) MODELS))"
    and "snd (snd (consultAllAdvisors cfg env t ctx tool st)) =
           concat (map (\<lambda>km. snd (consultAdvisor cfg env km)) MODELS)"
  using assms
  by (cases "getCachedResponse cfg (nowCacheGet env) (''all:'' @ t @ '':'' @ ctx @ '':'' @ tool) st";
      simp add: consultAllAdvisors_def Let_def comp_def)+

lemma consultAdvisor_envOk:
  "1 \<le> maxRetries cfg \<Longrightarrow>
   consultAdvisor cfg envOk km =
     (\<lparr>modelKey = fst km, advisorResponse = Some ''answer'', advisorError = None, success = True\<rparr>,
      [snd km])"
  by (simp add: consultAdvisor_def envOk_def dispatch_alwaysAnswers)

lemma consultAdvisor_envDown:
  "maxRetries cfg = 3 \<Longrightarrow>
   consultAdvisor cfg envDown km =
     (\<lparr>modelKey = fst km, advisorResponse = None,
       advisorError = Some ''Failed after 3 attempts: timeout'', success = False\<rparr>,
      [snd km, snd km, snd km])"
  by (simp add: consultAdvisor_def envDown_def envOk_def dispatch_alwaysDown showInt_3
      numeral_3_eq_3)

lemma callTool_fanout:
  assumes "fst (checkRateLimit cfg (nowRateLimit env) ''default'' (rateLimitTracker st))"
    and "name \<in> set validTools"
    and "isValid (validateInput cfg env (task args)
                 (case context' args of Some c \<Rightarrow> c | None \<Rightarrow> []))"
    and "model args = ''all''"
  shows "fst (callTool cfg env name args st) =
           fst (consultAllAdvisors cfg env (sanitizeInput (task args))
             (sanitizeInput (case context' args of Some c \<Rightarrow> c | None \<Rightarrow> [])) name
             (st\<lparr>rateLimitTracker :=
                  snd (checkRateLimit cfg (nowRateLimit env) ''default'' (rateLimitTracker st))\<rparr>))"
    and "snd (snd (callTool cfg env name args st)) =
           snd (snd (consultAllAdvisors cfg env (sanitizeInput (task args))
             (sanitizeInput (case context' args of Some c \<Rightarrow> c | None \<Rightarrow> [])) name
             (st\<lparr>rateLimitTracker :=
                  snd (checkRateLimit cfg (nowRateLimit env) ''default'' (rateLimitTracker st))\<rparr>)))"
proof -
  obtain tr where
    chk: "checkRateLimit cfg (nowRateLimit env) ''default'' (rateLimitTracker st) = (True, tr)"
    using assms(1)
    by (cases "checkRateLimit cfg (nowRateLimit env) ''default'' (rateLimitTracker st)") simp
  have rt: "routeToOptimalProvider env (model args) = (''all'', [])"
    by (simp add: assms(4) routeToOptimalProvider_literal_all)
  have s: "model args \<in> set ROUTING_STRATEGIES"
    by (simp add: assms(4) ROUTING_STRATEGIES_def)
  show "fst (callTool cfg env name args st) =
           fst (consultAllAdvisors cfg env (sanitizeInput (task args))
             (sanitizeInput (case context' args of Some c \<Rightarrow> c | None \<Rightarrow> [])) name
             (st\<lparr>rateLimitTracker :=
                  snd (checkRateLimit cfg (nowRateLimit env) ''default'' (rateLimitTracker st))\<rparr>))"
    unfolding callTool_eq[OF chk rt] chk using assms(2,3) s by simp
  show "snd (snd (callTool cfg env name args st)) =
           snd (snd (consultAllAdvisors cfg env (sanitizeInput (task args))
             (sanitizeInput (case context' args of Some c \<Rightarrow> c | None \<Rightarrow> [])) name
             (st\<lparr>rateLimitTracker :=
                  snd (checkRateLimit cfg (nowRateLimit env) ''default'' (rateLimitTracker st))\<rparr>)))"
    unfolding callTool_eq[OF chk rt] chk using assms(2,3) s by simp
qed

lemma askAll_gates:
  "fst (checkRateLimit cfg0 (nowRateLimit envOk) ''default'' (rateLimitTracker initialState))"
  "fst (checkRateLimit cfg0 (nowRateLimit envDown) ''default'' (rateLimitTracker initialState))"
  "''smart_advisor'' \<in> set validTools"
  "isValid (validateInput cfg0 envOk (task askAll)
                 (case context' askAll of Some c \<Rightarrow> c | None \<Rightarrow> []))"
  "isValid (validateInput cfg0 envDown (task askAll)
                 (case context' askAll of Some c \<Rightarrow> c | None \<Rightarrow> []))"
  "model askAll = ''all''"
  by (simp_all add: checkRateLimit_def initialState_def validTools_def validateInput_def
      askAll_def cfg0_def envOk_def envDown_def)

lemma initial_lookup_misses:
  "truthy (fst (getCachedResponse cfg now key (initialState\<lparr>rateLimitTracker := tr\<rparr>))) = None"
  by (simp add: getCachedResponse_def initialState_def Let_def)

text \<open>
  Claim C2, evaluated on the code. A fan-out request (strategy \<^verbatim>\<open>all\<close>) with every provider
  answering at once posts four requests, and the fourth goes to \<^verbatim>\<open>openai/gpt-4o-mini\<close>,
  the routing model: \<^verbatim>\<open>consultAllAdvisors\<close> maps over all keys of \<^verbatim>\<open>MODELS\<close>, \<^verbatim>\<open>router\<close>
  included, where \<^verbatim>\<open>callTool\<close> filters that key out for a single provider.
\<close>

theorem fanout_posts_to_router:
  "snd (snd (callTool cfg0 envOk ''smart_advisor'' askAll initialState)) =
     [''deepseek/deepseek-chat-v3-0324'', ''google/gemini-2.5-pro'', ''openai/o3'',
      ''openai/gpt-4o-mini'']"
proof -
  have m: "1 \<le> maxRetries cfg0" by (simp add: cfg0_def)
  show ?thesis
    unfolding callTool_fanout(2)[OF askAll_gates(1,3,4,6)]
      consultAllAdvisors_miss(2)[OF initial_lookup_misses]
    by (simp add: consultAdvisor_envOk[OF m] MODELS_def)
qed

lemma advisorSection_reason:
  "advisorSection (r\<lparr>advisorError := x\<rparr>) = advisorSection r"
  by (simp add: advisorSection_def)

lemma errorNote_reasons:
  "errorNote (map (\<lambda>r. r\<lparr>advisorError := reasons r\<rparr>) rs) = errorNote rs"
  by (simp add: errorNote_def comp_def)

lemma formatMultiAdvisorResponse_reasons:
  "formatMultiAdvisorResponse (map (\<lambda>r. r\<lparr>advisorError := reasons r\<rparr>) results) =
   formatMultiAdvisorResponse results"
proof -
  have s: "filter success (map (\<lambda>r. r\<lparr>advisorError := reasons r\<rparr>) results) =
           map (\<lambda>r. r\<lparr>advisorError := reasons r\<rparr>) (filter success results)"
    by (induction results) auto
  have f: "filter (\<lambda>r. \<not> success r) (map (\<lambda>r. r\<lparr>advisorError := reasons r\<rparr>) results) =
           map (\<lambda>r. r\<lparr>advisorError := reasons r\<rparr>) (filter (\<lambda>r. \<not> success r) results)"
    by (induction results) auto
  have c: "map advisorSection (map (\<lambda>r. r\<lparr>advisorError := reasons r\<rparr>) (filter success results)) =
           map advisorSection (filter success results)"
    by (simp add: comp_def advisorSection_reason)
  show ?thesis
    unfolding formatMultiAdvisorResponse_def Let_def s f c errorNote_reasons
    by simp
qed

lemma concat_map_split:
  "x \<in> set xs \<Longrightarrow> \<exists>pre post. concat (map f xs) = pre @ f x @ post"
proof -
  assume "x \<in> set xs"
  then obtain ys zs where "xs = ys @ x # zs" by (meson split_list)
  then have "concat (map f xs) = concat (map f ys) @ f x @ concat (map f zs)" by simp
  then show ?thesis by blast
qed

lemma formatMultiAdvisorResponse_section:
  assumes "r \<in> set results" and "success r"
  shows "\<exists>pre post. formatMultiAdvisorResponse results = pre @ advisorSection r @ post"
proof -
  from assms have "r \<in> set (filter success results)" by simp
  from concat_map_split[OF this, of advisorSection]
  obtain p q where c: "concat (map advisorSection (filter success results)) = p @ advisorSection r @ q"
    by blast
  let ?note = "if length (filter (\<lambda>r. \<not> success r) results) > 0
               then errorNote (filter (\<lambda>r. \<not> success r) results) else []"
  let ?syn = "if length (filter success results) > 1
              then synthesis (length (filter success results)) else []"
  have "formatMultiAdvisorResponse results =
          (consultationHeader @ ?note @ p) @ advisorSection r @ (q @ ?syn)"
    unfolding formatMultiAdvisorResponse_def Let_def c by simp
  then show ?thesis by (intro exI)
qed

lemma formatMultiAdvisorResponse_note:
  assumes "\<exists>r\<in>set results. \<not> success r"
  shows "\<exists>post. formatMultiAdvisorResponse results =
           consultationHeader @ errorNote (filter (\<lambda>r. \<not> success r) results) @ post"
proof -
  from assms have "filter (\<lambda>r. \<not> success r) results \<noteq> []"
    by (simp add: filter_empty_conv)
  then have "length (filter (\<lambda>r. \<not> success r) results) > 0" by simp
  then have "formatMultiAdvisorResponse results =
      consultationHeader @ errorNote (filter (\<lambda>r. \<not> success r) results) @
      (concat (map advisorSection (filter success results)) @
       (if length (filter success results) > 1
        then synthesis (length (filter success results)) else []))"
    unfolding formatMultiAdvisorResponse_def Let_def by simp
  then show ?thesis by (intro exI)
qed


lemma consultAdvisor_answered:
  "outcome (callOpenRouterWithRetry cfg (http env (snd km))) = Inr a \<Longrightarrow>
   fst (consultAdvisor cfg env km) =
     \<lparr>modelKey = fst km, advisorResponse = Some a, advisorError = None, success = True\<rparr>"
  by (simp add: consultAdvisor_def Let_def)

lemma consultAdvisor_failed:
  "outcome (callOpenRouterWithRetry cfg (http env (snd km))) = Inl e \<Longrightarrow>
   fst (consultAdvisor cfg env km) =
     \<lparr>modelKey = fst km, advisorResponse = None, advisorError = Some (message e),
      success = False\<rparr>"
  by (simp add: consultAdvisor_def Let_def)

lemma consultAdvisor_success:
  "(\<not> success (fst (consultAdvisor cfg env km))) =
   isl (outcome (callOpenRouterWithRetry cfg (http env (snd km))))"
  by (simp add: consultAdvisor_def Let_def split: sum.splits)

lemma consultAdvisor_modelKey: "modelKey (fst (consultAdvisor cfg env km)) = fst km"
  by (simp add: consultAdvisor_def Let_def split: sum.splits)

lemma failed_results:
  "filter (\<lambda>r. \<not> success r) (map (\<lambda>km. fst (consultAdvisor cfg env km)) kms) =
   map (\<lambda>km. fst (consultAdvisor cfg env km))
     (filter (\<lambda>km. isl (outcome (callOpenRouterWithRetry cfg (http env (snd km))))) kms)"
  by (induction kms) (simp_all add: consultAdvisor_success)

lemma advisorSection_text:
  "advisorResponse r = Some a \<Longrightarrow>
   advisorSection r =
     divider @ ''\<newline>## **'' @ lookupOrUndefined MODEL_NAMES (modelKey r) @
     '' Advisor** ('' @ modelKey r @ '')\<newline>'' @ divider @ ''\<newline>\<newline>'' @ a @
     ''\<newline>\<newline>''"
  by (simp add: advisorSection_def)

lemma formatted_section:
  assumes "r \<in> set results" and "success r" and "advisorResponse r = Some a"
  shows "\<exists>pre post. formatMultiAdvisorResponse results =
           pre @ divider @ ''\<newline>## **'' @ lookupOrUndefined MODEL_NAMES (modelKey r) @
           '' Advisor** ('' @ modelKey r @ '')\<newline>'' @ divider @ ''\<newline>\<newline>'' @ a @
           ''\<newline>\<newline>'' @ post"
proof -
  from formatMultiAdvisorResponse_section[OF assms(1,2)]
  obtain pre post where "formatMultiAdvisorResponse results = pre @ advisorSection r @ post"
    by blast
  then have "formatMultiAdvisorResponse results =
           pre @ divider @ ''\<newline>## **'' @ lookupOrUndefined MODEL_NAMES (modelKey r) @
           '' Advisor** ('' @ modelKey r @ '')\<newline>'' @ divider @ ''\<newline>\<newline>'' @ a @
           ''\<newline>\<newline>'' @ post"
    unfolding advisorSection_text[OF assms(3)] by simp
  then show ?thesis by (intro exI)
qed

lemma formatted_note:
  assumes "\<exists>r\<in>set results. \<not> success r"
  shows "\<exists>post. formatMultiAdvisorResponse results =
           consultationHeader @ ''**Note:** '' @
           showNat (length (filter (\<lambda>r. \<not> success r) results)) @
           '' advisor(s) encountered errors: '' @
           joinWith '', '' (map (\<lambda>r. lookupOrUndefined MODEL_NAMES (modelKey r))
                             (filter (\<lambda>r. \<not> success r) results)) @
           ''\<newline>\<newline>'' @ post"
proof -
  from formatMultiAdvisorResponse_note[OF assms]
  obtain post where "formatMultiAdvisorResponse results =
           consultationHeader @ errorNote (filter (\<lambda>r. \<not> success r) results) @ post"
    by blast
  then have "formatMultiAdvisorResponse results =
           consultationHeader @ ''**Note:** '' @
           showNat (length (filter (\<lambda>r. \<not> success r) results)) @
           '' advisor(s) encountered errors: '' @
           joinWith '', '' (map (\<lambda>r. lookupOrUndefined MODEL_NAMES (modelKey r))
                             (filter (\<lambda>r. \<not> success r) results)) @
           ''\<newline>\<newline>'' @ post"
    unfolding errorNote_def by simp
  then show ?thesis by (intro exI)
qed


lemma showNat_1: "showNat 1 = ''1''"
  by code_simp

lemma dispatch_envMixed:
  "outcome (callOpenRouterWithRetry cfg0 (http envMixed ''deepseek/deepseek-chat-v3-0324'')) =
     Inr ''answer''"
  "outcome (callOpenRouterWithRetry cfg0 (http envMixed ''google/gemini-2.5-pro'')) =
     Inl (SmartAdvisorError ''Failed after 3 attempts: timeout'' ''MAX_RETRIES_EXCEEDED''
            (Some (Error ''timeout'')))"
  "outcome (callOpenRouterWithRetry cfg0 (http envMixed ''openai/o3'')) = Inr ''answer''"
  "outcome (callOpenRouterWithRetry cfg0 (http envMixed ''openai/gpt-4o-mini'')) = Inr ''answer''"
proof -
  have m: "maxRetries cfg0 = 3" "1 \<le> maxRetries cfg0" by (simp_all add: cfg0_def)
  show "outcome (callOpenRouterWithRetry cfg0 (http envMixed ''deepseek/deepseek-chat-v3-0324'')) =
     Inr ''answer''"
    by (simp add: envMixed_def envOk_def dispatch_alwaysAnswers[OF m(2)])
  show "outcome (callOpenRouterWithRetry cfg0 (http envMixed ''google/gemini-2.5-pro'')) =
     Inl (SmartAdvisorError ''Failed after 3 attempts: timeout'' ''MAX_RETRIES_EXCEEDED''
            (Some (Error ''timeout'')))"
    by (simp add: envMixed_def envOk_def dispatch_alwaysDown[OF m(1)] showInt_3)
  show "outcome (callOpenRouterWithRetry cfg0 (http envMixed ''openai/o3'')) = Inr ''answer''"
    by (simp add: envMixed_def envOk_def dispatch_alwaysAnswers[OF m(2)])
  show "outcome (callOpenRouterWithRetry cfg0 (http envMixed ''openai/gpt-4o-mini'')) = Inr ''answer''"
    by (simp add: envMixed_def envOk_def dispatch_alwaysAnswers[OF m(2)])
qed

lemma failed_envMixed:
  "filter (\<lambda>km. isl (outcome (callOpenRouterWithRetry cfg0 (http envMixed (snd km))))) MODELS =
     [(''google'', ''google/gemini-2.5-pro'')]"
  by (simp add: MODELS_def dispatch_envMixed)

lemma showNat_4: "showNat (Suc (Suc (Suc (Suc 0)))) = ''4''"
  by code_simp

text \<open>
  Claim C3, as the code has it. \<^verbatim>\<open>consultAllAdvisors\<close> always returns a text and never
  throws, whatever the providers do. When the lookup under the fan-out key misses, the
  text is \<^verbatim>\<open>formatMultiAdvisorResponse\<close> of one outcome per key of \<^verbatim>\<open>MODELS\<close>, in their order:
  a dispatch that returned an answer gives a successful outcome carrying that answer, one
  that threw gives a failed outcome carrying the message. The text of any list of outcomes
  contains, for every successful outcome, a section with the provider's display name, its
  key and its answer; and when some outcome failed, the text starts with the header
  followed by a note that gives the number of failed outcomes and their display names,
  in order. So on a miss the returned text has the section of every provider whose dispatch
  answered, and the note naming every provider whose dispatch threw. The text does not
  depend on the failure reasons: replacing the \<^verbatim>\<open>error\<close> field of every outcome by anything
  else gives the same text. A tool call with strategy \<^verbatim>\<open>all\<close> either returns a text or
  is refused at a gate before the fan-out (rate limit, unknown tool, invalid input); once
  past the gates its result is the result of \<^verbatim>\<open>consultAllAdvisors\<close>.
\<close>

theorem fanout_result:
  "(\<exists>answer. fst (consultAllAdvisors cfg env t ctx tool st) = Inr answer)
   \<and> (truthy (fst (getCachedResponse cfg (nowCacheGet env)
                    (''all:'' @ t @ '':'' @ ctx @ '':'' @ tool) st)) = None \<longrightarrow>
        fst (consultAllAdvisors cfg env t ctx tool st) =
          Inr (formatMultiAdvisorResponse (map (\<lambda>km. fst (consultAdvisor cfg env km)) MODELS)))
   \<and> map modelKey (map (\<lambda>km. fst (consultAdvisor cfg env km)) MODELS) = map fst MODELS
   \<and> (outcome (callOpenRouterWithRetry cfg (http env (snd km))) = Inr a \<longrightarrow>
        fst (consultAdvisor cfg env km) =
          \<lparr>modelKey = fst km, advisorResponse = Some a, advisorError = None, success = True\<rparr>)
   \<and> (outcome (callOpenRouterWithRetry cfg (http env (snd km))) = Inl e \<longrightarrow>
        fst (consultAdvisor cfg env km) =
          \<lparr>modelKey = fst km, advisorResponse = None, advisorError = Some (message e),
           success = False\<rparr>)
   \<and> (r \<in> set results \<and> success r \<and> advisorResponse r = Some a \<longrightarrow>
        (\<exists>pre post. formatMultiAdvisorResponse results =
           pre @ divider @ ''\<newline>## **'' @ lookupOrUndefined MODEL_NAMES (modelKey r) @
           '' Advisor** ('' @ modelKey r @ '')\<newline>'' @ divider @ ''\<newline>\<newline>'' @ a @
           ''\<newline>\<newline>'' @ post))
   \<and> ((\<exists>r\<in>set results. \<not> success r) \<longrightarrow>
        (\<exists>post. formatMultiAdvisorResponse results =
           consultationHeader @ ''**Note:** '' @
           showNat (length (filter (\<lambda>r. \<not> success r) results)) @
           '' advisor(s) encountered errors: '' @
           joinWith '', '' (map (\<lambda>r. lookupOrUndefined MODEL_NAMES (modelKey r))
                             (filter (\<lambda>r. \<not> success r) results)) @
           ''\<newline>\<newline>'' @ post))
   \<and> (truthy (fst (getCachedResponse cfg (nowCacheGet env)
                    (''all:'' @ t @ '':'' @ ctx @ '':'' @ tool) st)) = None \<and>
        km \<in> set MODELS \<and>
        outcome (callOpenRouterWithRetry cfg (http env (snd km))) = Inr a \<longrightarrow>
        (\<exists>pre post. fst (consultAllAdvisors cfg env t ctx tool st) =
           Inr (pre @ divider @ ''\<newline>## **'' @ lookupOrUndefined MODEL_NAMES (fst km) @
                '' Advisor** ('' @ fst km @ '')\<newline>'' @ divider @ ''\<newline>\<newline>'' @ a @
                ''\<newline>\<newline>'' @ post)))
   \<and> (truthy (fst (getCachedResponse cfg (nowCacheGet env)
                    (''all:'' @ t @ '':'' @ ctx @ '':'' @ tool) st)) = None \<and>
        km \<in> set MODELS \<and>
        outcome (callOpenRouterWithRetry cfg (http env (snd km))) = Inl e \<longrightarrow>
        (\<exists>post. fst (consultAllAdvisors cfg env t ctx tool st) =
           Inr (consultationHeader @ ''**Note:** '' @
                showNat (length (filter
                  (\<lambda>km. isl (outcome (callOpenRouterWithRetry cfg (http env (snd km))))) MODELS)) @
                '' advisor(s) encountered errors: '' @
                joinWith '', '' (map (\<lambda>km. lookupOrUndefined MODEL_NAMES (fst km))
                  (filter (\<lambda>km. isl (outcome (callOpenRouterWithRetry cfg (http env (snd km)))))
                     MODELS)) @
                ''\<newline>\<newline>'' @ post)))
   \<and> formatMultiAdvisorResponse (map (\<lambda>r. r\<lparr>advisorError := reasons r\<rparr>) results) =
        formatMultiAdvisorResponse results
   \<and> (model args = ''all'' \<longrightarrow>
        (\<exists>answer. fst (callTool cfg env name args st) = Inr answer) \<or>
        (\<exists>msg c. fst (callTool cfg env name args st) = Inl (SmartAdvisorError msg c None) \<and>
           c \<in> {''RATE_LIMIT_EXCEEDED'', ''UNKNOWN_TOOL'', ''INVALID_INPUT''}))
   \<and> (model args = ''all'' \<and>
        fst (checkRateLimit cfg (nowRateLimit env) ''default'' (rateLimitTracker st)) \<and>
        name \<in> set validTools \<and>
        isValid (validateInput cfg env (task args)
                 (case context' args of Some c \<Rightarrow> c | None \<Rightarrow> [])) \<longrightarrow>
        fst (callTool cfg env name args st) =
          fst (consultAllAdvisors cfg env (sanitizeInput (task args))
                 (sanitizeInput (case context' args of Some c \<Rightarrow> c | None \<Rightarrow> [])) name
                 (st\<lparr>rateLimitTracker :=
                      snd (checkRateLimit cfg (nowRateLimit env) ''default''
                             (rateLimitTracker st))\<rparr>)))"
proof (intro conjI impI)
  show "\<exists>answer. fst (consultAllAdvisors cfg env t ctx tool st) = Inr answer"
    by (rule consultAllAdvisors_returns)
next
  assume "truthy (fst (getCachedResponse cfg (nowCacheGet env)
                    (''all:'' @ t @ '':'' @ ctx @ '':'' @ tool) st)) = None"
  then show "fst (consultAllAdvisors cfg env t ctx tool st) =
          Inr (formatMultiAdvisorResponse (map (\<lambda>km. fst (consultAdvisor cfg env km)) MODELS))"
    by (rule consultAllAdvisors_miss(1))
next
  show "map modelKey (map (\<lambda>km. fst (consultAdvisor cfg env km)) MODELS) = map fst MODELS"
    by (simp add: comp_def consultAdvisor_modelKey)
next
  assume "outcome (callOpenRouterWithRetry cfg (http env (snd km))) = Inr a"
  then show "fst (consultAdvisor cfg env km) =
          \<lparr>modelKey = fst km, advisorResponse = Some a, advisorError = None, success = True\<rparr>"
    by (rule consultAdvisor_answered)
next
  assume "outcome (callOpenRouterWithRetry cfg (http env (snd km))) = Inl e"
  then show "fst (consultAdvisor cfg env km) =
          \<lparr>modelKey = fst km, advisorResponse = None, advisorError = Some (message e),
           success = False\<rparr>"
    by (rule consultAdvisor_failed)
next
  assume "r \<in> set results \<and> success r \<and> advisorResponse r = Some a"
  then have "r \<in> set results" "success r" "advisorResponse r = Some a" by simp_all
  then show "\<exists>pre post. formatMultiAdvisorResponse results =
           pre @ divider @ ''\<newline>## **'' @ lookupOrUndefined MODEL_NAMES (modelKey r) @
           '' Advisor** ('' @ modelKey r @ '')\<newline>'' @ divider @ ''\<newline>\<newline>'' @ a @
           ''\<newline>\<newline>'' @ post"
    by (rule formatted_section)
next
  assume "\<exists>r\<in>set results. \<not> success r"
  then show "\<exists>post. formatMultiAdvisorResponse results =
           consultationHeader @ ''**Note:** '' @
           showNat (length (filter (\<lambda>r. \<not> success r) results)) @
           '' advisor(s) encountered errors: '' @
           joinWith '', '' (map (\<lambda>r. lookupOrUndefined MODEL_NAMES (modelKey r))
                             (filter (\<lambda>r. \<not> success r) results)) @
           ''\<newline>\<newline>'' @ post"
    by (rule formatted_note)
next
  assume h: "truthy (fst (getCachedResponse cfg (nowCacheGet env)
                    (''all:'' @ t @ '':'' @ ctx @ '':'' @ tool) st)) = None \<and>
        km \<in> set MODELS \<and>
        outcome (callOpenRouterWithRetry cfg (http env (snd km))) = Inr a"
  let ?results = "map (\<lambda>km. fst (consultAdvisor cfg env km)) MODELS"
  let ?r = "fst (consultAdvisor cfg env km)"
  have miss: "truthy (fst (getCachedResponse cfg (nowCacheGet env)
                    (''all:'' @ t @ '':'' @ ctx @ '':'' @ tool) st)) = None"
    using h by simp
  have r: "?r = \<lparr>modelKey = fst km, advisorResponse = Some a, advisorError = None, success = True\<rparr>"
    using h by (simp add: consultAdvisor_answered)
  have m: "?r \<in> set ?results" using h by simp
  have s: "success ?r" "advisorResponse ?r = Some a" "modelKey ?r = fst km"
    by (simp_all add: r)
  from formatted_section[OF m s(1,2)] show "\<exists>pre post. fst (consultAllAdvisors cfg env t ctx tool st) =
           Inr (pre @ divider @ ''\<newline>## **'' @ lookupOrUndefined MODEL_NAMES (fst km) @
                '' Advisor** ('' @ fst km @ '')\<newline>'' @ divider @ ''\<newline>\<newline>'' @ a @
                ''\<newline>\<newline>'' @ post)"
    unfolding consultAllAdvisors_miss(1)[OF miss] s(3) by simp
next
  assume h: "truthy (fst (getCachedResponse cfg (nowCacheGet env)
                    (''all:'' @ t @ '':'' @ ctx @ '':'' @ tool) st)) = None \<and>
        km \<in> set MODELS \<and>
        outcome (callOpenRouterWithRetry cfg (http env (snd km))) = Inl e"
  let ?results = "map (\<lambda>km. fst (consultAdvisor cfg env km)) MODELS"
  let ?failed = "filter (\<lambda>km. isl (outcome (callOpenRouterWithRetry cfg (http env (snd km))))) MODELS"
  have miss: "truthy (fst (getCachedResponse cfg (nowCacheGet env)
                    (''all:'' @ t @ '':'' @ ctx @ '':'' @ tool) st)) = None"
    using h by simp
  have "fst (consultAdvisor cfg env km) \<in> set ?results" using h by simp
  moreover have "\<not> success (fst (consultAdvisor cfg env km))"
    using h by (simp add: consultAdvisor_failed)
  ultimately have ex: "\<exists>r\<in>set ?results. \<not> success r" by (rule bexI[rotated])
  have f: "filter (\<lambda>r. \<not> success r) ?results = map (\<lambda>km. fst (consultAdvisor cfg env km)) ?failed"
    by (rule failed_results)
  have n: "map (\<lambda>r. lookupOrUndefined MODEL_NAMES (modelKey r))
             (map (\<lambda>km. fst (consultAdvisor cfg env km)) ?failed) =
           map (\<lambda>km. lookupOrUndefined MODEL_NAMES (fst km)) ?failed"
    by (simp add: comp_def consultAdvisor_modelKey)
  from formatted_note[OF ex] show "\<exists>post. fst (consultAllAdvisors cfg env t ctx tool st) =
           Inr (consultationHeader @ ''**Note:** '' @
                showNat (length ?failed) @
                '' advisor(s) encountered errors: '' @
                joinWith '', '' (map (\<lambda>km. lookupOrUndefined MODEL_NAMES (fst km)) ?failed) @
                ''\<newline>\<newline>'' @ post)"
    unfolding consultAllAdvisors_miss(1)[OF miss] f n by simp
next
  show "formatMultiAdvisorResponse (map (\<lambda>r. r\<lparr>advisorError := reasons r\<rparr>) results) =
        formatMultiAdvisorResponse results"
    by (rule formatMultiAdvisorResponse_reasons)
next
  assume all: "model args = ''all''"
  obtain admitted tr where
    chk: "checkRateLimit cfg (nowRateLimit env) ''default'' (rateLimitTracker st) = (admitted, tr)"
    by (cases "checkRateLimit cfg (nowRateLimit env) ''default'' (rateLimitTracker st)")
  have rt: "routeToOptimalProvider env (model args) = (''all'', [])"
    by (simp add: all routeToOptimalProvider_literal_all)
  have s: "model args \<in> set ROUTING_STRATEGIES"
    by (simp add: all ROUTING_STRATEGIES_def)
  obtain answer where ca: "fst (consultAllAdvisors cfg env (sanitizeInput (task args))
           (sanitizeInput (case context' args of Some c \<Rightarrow> c | None \<Rightarrow> [])) name
           (st\<lparr>rateLimitTracker := tr\<rparr>)) = Inr answer"
    using consultAllAdvisors_returns by blast
  show "(\<exists>answer. fst (callTool cfg env name args st) = Inr answer) \<or>
        (\<exists>msg c. fst (callTool cfg env name args st) = Inl (SmartAdvisorError msg c None) \<and>
           c \<in> {''RATE_LIMIT_EXCEEDED'', ''UNKNOWN_TOOL'', ''INVALID_INPUT''})"
    unfolding callTool_eq[OF chk rt] using s ca by simp
next
  assume h: "model args = ''all'' \<and>
        fst (checkRateLimit cfg (nowRateLimit env) ''default'' (rateLimitTracker st)) \<and>
        name \<in> set validTools \<and>
        isValid (validateInput cfg env (task args)
                 (case context' args of Some c \<Rightarrow> c | None \<Rightarrow> []))"
  then have a: "fst (checkRateLimit cfg (nowRateLimit env) ''default'' (rateLimitTracker st))"
    and b: "name \<in> set validTools"
    and c: "isValid (validateInput cfg env (task args)
                 (case context' args of Some c \<Rightarrow> c | None \<Rightarrow> []))"
    and d: "model args = ''all''" by simp_all
  show "fst (callTool cfg env name args st) =
          fst (consultAllAdvisors cfg env (sanitizeInput (task args))
                 (sanitizeInput (case context' args of Some c \<Rightarrow> c | None \<Rightarrow> [])) name
                 (st\<lparr>rateLimitTracker :=
                      snd (checkRateLimit cfg (nowRateLimit env) ''default''
                             (rateLimitTracker st))\<rparr>))"
    by (rule callTool_fanout(1)[OF a b c d])
qed


theorem fanout_result_witness:
  "(\<exists>pre post. fst (consultAllAdvisors cfg0 envMixed ''test task'' [] ''smart_advisor'' initialState) =
      Inr (pre @ divider @ ''\<newline>## **DeepSeek AI Advisor** (deepseek)\<newline>'' @ divider @
           ''\<newline>\<newline>answer\<newline>\<newline>'' @ post))
   \<and> (\<exists>post. fst (consultAllAdvisors cfg0 envMixed ''test task'' [] ''smart_advisor'' initialState) =
      Inr (consultationHeader @
           ''**Note:** 1 advisor(s) encountered errors: Google Gemini\<newline>\<newline>'' @ post))
   \<and> (\<exists>answer. fst (callTool cfg0 envMixed ''smart_advisor'' askAll initialState) = Inr answer)"
proof -
  let ?fail = "SmartAdvisorError ''Failed after 3 attempts: timeout'' ''MAX_RETRIES_EXCEEDED''
            (Some (Error ''timeout''))"
  let ?ok = "\<lparr>modelKey = ''deepseek'', advisorResponse = Some ''answer'', advisorError = None,
              success = True\<rparr>"
  let ?ko = "\<lparr>modelKey = ''google'', advisorResponse = None,
              advisorError = Some ''Failed after 3 attempts: timeout'', success = False\<rparr>"
  have miss: "truthy (fst (getCachedResponse cfg0 (nowCacheGet envMixed)
       (''all:'' @ ''test task'' @ '':'' @ [] @ '':'' @ ''smart_advisor'') initialState)) = None"
    by (simp add: getCachedResponse_def initialState_def Let_def)
  have mem: "(''deepseek'', ''deepseek/deepseek-chat-v3-0324'') \<in> set MODELS"
    "(''google'', ''google/gemini-2.5-pro'') \<in> set MODELS"
    by (simp_all add: MODELS_def)
  have names: "lookupOrUndefined MODEL_NAMES ''deepseek'' = ''DeepSeek AI''"
    "lookupOrUndefined MODEL_NAMES ''google'' = ''Google Gemini''"
    by (simp_all add: lookupOrUndefined_def MODEL_NAMES_def)
  note T = fanout_result[where cfg=cfg0 and env=envMixed and t="''test task''" and ctx="[]"
        and tool="''smart_advisor''" and st=initialState
        and km="(''deepseek'', ''deepseek/deepseek-chat-v3-0324'')" and a="''answer''"
        and e="?fail" and r="?ok" and results="[?ok, ?ko]" and reasons="\<lambda>r. None"
        and args=askAll and name="''smart_advisor''"]
  note U = fanout_result[where cfg=cfg0 and env=envMixed and t="''test task''" and ctx="[]"
        and tool="''smart_advisor''" and st=initialState
        and km="(''google'', ''google/gemini-2.5-pro'')" and a="''answer''"
        and e="?fail" and r="?ok" and results="[?ok, ?ko]" and reasons="\<lambda>r. None"
        and args=askAll and name="''smart_advisor''"]
  note V = fanout_result[where cfg=cfg0 and env=envMixed and t="sanitizeInput (task askAll)"
        and ctx="sanitizeInput (case context' askAll of Some c \<Rightarrow> c | None \<Rightarrow> [])"
        and tool="''smart_advisor''"
        and st="initialState\<lparr>rateLimitTracker :=
                 snd (checkRateLimit cfg0 (nowRateLimit envMixed) ''default''
                        (rateLimitTracker initialState))\<rparr>"
        and km="(''google'', ''google/gemini-2.5-pro'')" and a="''answer''"
        and e="?fail" and r="?ok" and results="[?ok, ?ko]" and reasons="\<lambda>r. None"
        and args=askAll and name="''smart_advisor''"]
  have a: "\<exists>pre post. fst (consultAllAdvisors cfg0 envMixed ''test task'' [] ''smart_advisor'' initialState) =
      Inr (pre @ divider @ ''\<newline>## **DeepSeek AI Advisor** (deepseek)\<newline>'' @ divider @
           ''\<newline>\<newline>answer\<newline>\<newline>'' @ post)"
    using T[THEN conjunct2, THEN conjunct2, THEN conjunct2, THEN conjunct2, THEN conjunct2, THEN conjunct2, THEN conjunct2, THEN conjunct1] miss mem(1) dispatch_envMixed(1) names(1)
    by simp
  have b: "\<exists>post. fst (consultAllAdvisors cfg0 envMixed ''test task'' [] ''smart_advisor'' initialState) =
      Inr (consultationHeader @
           ''**Note:** 1 advisor(s) encountered errors: Google Gemini\<newline>\<newline>'' @ post)"
    using U[THEN conjunct2, THEN conjunct2, THEN conjunct2, THEN conjunct2, THEN conjunct2, THEN conjunct2, THEN conjunct2, THEN conjunct2, THEN conjunct1] miss mem(2) dispatch_envMixed(2) names(2) failed_envMixed showNat_1
    by simp
  have g: "model askAll = ''all''"
    "fst (checkRateLimit cfg0 (nowRateLimit envMixed) ''default'' (rateLimitTracker initialState))"
    "''smart_advisor'' \<in> set validTools"
    "isValid (validateInput cfg0 envMixed (task askAll)
                 (case context' askAll of Some c \<Rightarrow> c | None \<Rightarrow> []))"
    by (simp_all add: checkRateLimit_def initialState_def validTools_def validateInput_def
        askAll_def cfg0_def envOk_def envMixed_def)
  have pass: "fst (callTool cfg0 envMixed ''smart_advisor'' askAll initialState) =
          fst (consultAllAdvisors cfg0 envMixed (sanitizeInput (task askAll))
                 (sanitizeInput (case context' askAll of Some c \<Rightarrow> c | None \<Rightarrow> []))
                 ''smart_advisor''
                 (initialState\<lparr>rateLimitTracker :=
                      snd (checkRateLimit cfg0 (nowRateLimit envMixed) ''default''
                             (rateLimitTracker initialState))\<rparr>))"
    using U[THEN conjunct2, THEN conjunct2, THEN conjunct2, THEN conjunct2, THEN conjunct2, THEN conjunct2, THEN conjunct2, THEN conjunct2, THEN conjunct2, THEN conjunct2, THEN conjunct2] g by simp
  have c: "\<exists>answer. fst (callTool cfg0 envMixed ''smart_advisor'' askAll initialState) = Inr answer"
    unfolding pass by (rule V[THEN conjunct1])
  from a b c show ?thesis by (intro conjI)
qed


text \<open>
  A fan-out request in which every request to every provider times out: all four outcomes
  are failures, and the tool call still returns a text normally, as a success. The text is
  the header and the note naming the four providers, and nothing else.
\<close>

theorem fanout_all_failed_counterexample:
  "fst (callTool cfg0 envDown ''smart_advisor'' askAll initialState) =
     Inr (formatMultiAdvisorResponse
       [\<lparr>modelKey = ''deepseek'', advisorResponse = None,
          advisorError = Some ''Failed after 3 attempts: timeout'', success = False\<rparr>,
        \<lparr>modelKey = ''google'', advisorResponse = None,
          advisorError = Some ''Failed after 3 attempts: timeout'', success = False\<rparr>,
        \<lparr>modelKey = ''openai'', advisorResponse = None,
          advisorError = Some ''Failed after 3 attempts: timeout'', success = False\<rparr>,
        \<lparr>modelKey = ''router'', advisorResponse = None,
          advisorError = Some ''Failed after 3 attempts: timeout'', success = False\<rparr>])
   \<and> fst (callTool cfg0 envDown ''smart_advisor'' askAll initialState) =
     Inr (consultationHeader @
          ''**Note:** 4 advisor(s) encountered errors: '' @
          ''DeepSeek AI, Google Gemini, OpenAI GPT, GPT-4.1-Mini Router\<newline>\<newline>'')"
proof -
  have m: "maxRetries cfg0 = 3" by (simp add: cfg0_def)
  have r: "fst (callTool cfg0 envDown ''smart_advisor'' askAll initialState) =
     Inr (formatMultiAdvisorResponse
       [\<lparr>modelKey = ''deepseek'', advisorResponse = None,
          advisorError = Some ''Failed after 3 attempts: timeout'', success = False\<rparr>,
        \<lparr>modelKey = ''google'', advisorResponse = None,
          advisorError = Some ''Failed after 3 attempts: timeout'', success = False\<rparr>,
        \<lparr>modelKey = ''openai'', advisorResponse = None,
          advisorError = Some ''Failed after 3 attempts: timeout'', success = False\<rparr>,
        \<lparr>modelKey = ''router'', advisorResponse = None,
          advisorError = Some ''Failed after 3 attempts: timeout'', success = False\<rparr>])"
    unfolding callTool_fanout(1)[OF askAll_gates(2,3,5,6)]
      consultAllAdvisors_miss(1)[OF initial_lookup_misses]
    by (simp add: consultAdvisor_envDown[OF m] MODELS_def)
  have f: "formatMultiAdvisorResponse
       [\<lparr>modelKey = ''deepseek'', advisorResponse = None,
          advisorError = Some ''Failed after 3 attempts: timeout'', success = False\<rparr>,
        \<lparr>modelKey = ''google'', advisorResponse = None,
          advisorError = Some ''Failed after 3 attempts: timeout'', success = False\<rparr>,
        \<lparr>modelKey = ''openai'', advisorResponse = None,
          advisorError = Some ''Failed after 3 attempts: timeout'', success = False\<rparr>,
        \<lparr>modelKey = ''router'', advisorResponse = None,
          advisorError = Some ''Failed after 3 attempts: timeout'', success = False\<rparr>] =
     consultationHeader @
          ''**Note:** 4 advisor(s) encountered errors: '' @
          ''DeepSeek AI, Google Gemini, OpenAI GPT, GPT-4.1-Mini Router\<newline>\<newline>''"
    by (simp add: formatMultiAdvisorResponse_def errorNote_def lookupOrUndefined_def
        MODEL_NAMES_def showNat_4)
  from r f show ?thesis by simp
qed

text \<open>
  Claim C4, evaluated on the code. The strategy \<^verbatim>\<open>random\<close> is not a key of
  \<^verbatim>\<open>ROUTING_STRATEGIES\<close>: a request that names it is rejected with \<^verbatim>\<open>UNKNOWN_STRATEGY\<close>
  before any provider is chosen, and nothing is posted.
\<close>

theorem random_strategy_rejected:
  "fst (callTool cfg0 envOk ''smart_advisor'' askRandom initialState) =
     Inl (SmartAdvisorError
       (''Unknown routing strategy: random. Available: '' @ joinWith '', '' ROUTING_STRATEGIES)
       ''UNKNOWN_STRATEGY'' None)
   \<and> snd (snd (callTool cfg0 envOk ''smart_advisor'' askRandom initialState)) = []
   \<and> ''random'' \<notin> set ROUTING_STRATEGIES"
  by (simp add: callTool_def checkRateLimit_def initialState_def envOk_def cfg0_def
      validTools_def askRandom_def validateInput_def ROUTING_STRATEGIES_def Let_def)

lemma getCachedResponse_keeps_responses:
  "\<forall>kv\<in>set (requestCache (snd (getCachedResponse cfg now key st))).
     \<exists>kv0\<in>set (requestCache st). fst kv0 = fst kv \<and> response (snd kv0) = response (snd kv)"
proof (cases "map_of (requestCache st) key")
  case None
  from getCachedResponse_absent[OF None, of cfg now] show ?thesis by auto
next
  case (Some cached)
  then have m: "(key, cached) \<in> set (requestCache st)" by (rule map_of_SomeD)
  show ?thesis
  proof (cases "now - timestamp cached < cacheTtl cfg")
    case True
    let ?c = "cached\<lparr>accessCount := accessCount cached + 1\<rparr>"
    have "\<forall>kv\<in>set (Map_set key ?c (requestCache st)).
            \<exists>kv0\<in>set (requestCache st). fst kv0 = fst kv \<and> response (snd kv0) = response (snd kv)"
    proof (rule ball_Map_set)
      show "\<exists>kv0\<in>set (requestCache st). fst kv0 = fst (key, ?c) \<and>
              response (snd kv0) = response (snd (key, ?c))"
        using m by (intro bexI[of _ "(key, cached)"]) simp_all
      show "\<forall>kv\<in>set (requestCache st).
              \<exists>kv0\<in>set (requestCache st). fst kv0 = fst kv \<and> response (snd kv0) = response (snd kv)"
        by auto
    qed
    with getCachedResponse_hit[OF Some True] show ?thesis by simp
  next
    case False
    then have ex: "cacheTtl cfg \<le> now - timestamp cached" by simp
    have "\<forall>kv\<in>set (Map_delete key (requestCache st)).
            \<exists>kv0\<in>set (requestCache st). fst kv0 = fst kv \<and> response (snd kv0) = response (snd kv)"
      using set_Map_delete[of key "requestCache st"] by auto
    with getCachedResponse_expired[OF Some ex] show ?thesis by simp
  qed
qed

lemma getCachedResponse_miss_absent:
  assumes "truthy (fst (getCachedResponse cfg now key st)) = None"
    and "\<forall>kv\<in>set (requestCache st). response (snd kv) \<noteq> []"
  shows "map_of (requestCache (snd (getCachedResponse cfg now key st))) key = None"
proof (cases "map_of (requestCache st) key")
  case None
  from getCachedResponse_absent[OF None, of cfg now] None show ?thesis by simp
next
  case (Some cached)
  then have "(key, cached) \<in> set (requestCache st)" by (rule map_of_SomeD)
  with assms(2) have ne: "response cached \<noteq> []" by force
  show ?thesis
  proof (cases "now - timestamp cached < cacheTtl cfg")
    case True
    from getCachedResponse_hit[OF Some True] assms(1) ne have False
      by (cases "response cached") simp_all
    then show ?thesis ..
  next
    case False
    then have ex: "cacheTtl cfg \<le> now - timestamp cached" by simp
    from getCachedResponse_expired[OF Some ex] show ?thesis
      by (simp add: map_of_Map_delete_same)
  qed
qed

text \<open>
  Claim C10. Take a tool call that ends with what the dispatcher throws, a
  \<^verbatim>\<open>CLIENT_ERROR\<close> or a \<^verbatim>\<open>MAX_RETRIES_EXCEEDED\<close>. The cache after the call is the cache as
  the lookup under the request's key left it: the dispatch stores nothing. Every key of
  the cache afterwards was a key before, with the same response, so no failure has become
  a cached answer. And when no cached response was empty beforehand, the request's key has
  no entry afterwards (the lookup missed, and removed the entry if it had expired).
\<close>

theorem failed_dispatch_not_cached:
  assumes "fst (callTool cfg env name args st) = Inl err"
    and "code err = Some ''CLIENT_ERROR'' \<or> code err = Some ''MAX_RETRIES_EXCEEDED''"
  shows "requestCache (fst (snd (callTool cfg env name args st))) =
           requestCache (snd (getCachedResponse cfg (nowCacheGet env) (cacheKeyOf env args) st))
       \<and> (\<forall>kv\<in>set (requestCache (fst (snd (callTool cfg env name args st)))).
             \<exists>kv0\<in>set (requestCache st).
               fst kv0 = fst kv \<and> response (snd kv0) = response (snd kv))
       \<and> ((\<forall>kv\<in>set (requestCache st). response (snd kv) \<noteq> []) \<longrightarrow>
             map_of (requestCache (fst (snd (callTool cfg env name args st))))
               (cacheKeyOf env args) = None)"
proof -
  from callTool_failure_cases[OF assms(1)] show ?thesis
  proof (elim disjE exE conjE)
    fix msg c
    assume e: "err = SmartAdvisorError msg c None"
      and c: "c \<in> {''RATE_LIMIT_EXCEEDED'', ''UNKNOWN_TOOL'', ''INVALID_INPUT'', ''UNKNOWN_STRATEGY'',
                 ''INVALID_PROVIDER''}"
    from c have "c \<noteq> ''CLIENT_ERROR''" and "c \<noteq> ''MAX_RETRIES_EXCEEDED''" by auto
    with assms(2) e have False by simp
    then show ?thesis ..
  next
    assume miss: "truthy (fst (getCachedResponse cfg (nowCacheGet env) (cacheKeyOf env args) st)) = None"
      and rc: "requestCache (fst (snd (callTool cfg env name args st))) =
         requestCache (snd (getCachedResponse cfg (nowCacheGet env) (cacheKeyOf env args) st))"
    show ?thesis
      unfolding rc
      using getCachedResponse_keeps_responses[of cfg "nowCacheGet env" "cacheKeyOf env args" st]
        getCachedResponse_miss_absent[OF miss]
      by simp
  qed
qed

lemma callTool_envDown_google:
  "fst (callTool cfg0 envDown ''smart_advisor'' askGoogle initialState) =
     Inl (SmartAdvisorError ''Failed after 3 attempts: timeout'' ''MAX_RETRIES_EXCEEDED''
            (Some (Error ''timeout'')))"
proof -
  have m: "maxRetries cfg0 = 3" by (simp add: cfg0_def)
  have chk: "checkRateLimit cfg0 (nowRateLimit envDown) ''default'' (rateLimitTracker initialState) =
      (True, [''default'' \<mapsto> \<lparr>count = 1, windowStart = 10\<rparr>])"
    by (simp add: checkRateLimit_def initialState_def envDown_def envOk_def)
  have rt: "routeToOptimalProvider envDown (model askGoogle) = (''google'', [])"
    by (simp add: routeToOptimalProvider_def askGoogle_def)
  have v: "isValid (validateInput cfg0 envDown (task askGoogle) [])"
    by (simp add: validateInput_def askGoogle_def envDown_def envOk_def cfg0_def)
  have ct: "callTool cfg0 envDown ''smart_advisor'' askGoogle initialState =
      answerFromProvider cfg0 envDown ''google'' (sanitizeInput (task askGoogle))
             (sanitizeInput []) []
             (initialState\<lparr>rateLimitTracker := [''default'' \<mapsto> \<lparr>count = 1, windowStart = 10\<rparr>]\<rparr>)"
    unfolding callTool_eq[OF chk rt] using v
    by (simp add: askGoogle_def ROUTING_STRATEGIES_def MODELS_def validTools_def)
  show ?thesis
    unfolding ct using dispatch_alwaysDown[OF m]
    by (simp add: answerFromProvider_def getCachedResponse_def Let_def envDown_def envOk_def
        initialState_def showInt_3)
qed

theorem failed_dispatch_not_cached_witness:
  "fst (callTool cfg0 envDown ''smart_advisor'' askGoogle initialState) =
     Inl (SmartAdvisorError ''Failed after 3 attempts: timeout'' ''MAX_RETRIES_EXCEEDED''
            (Some (Error ''timeout'')))
   \<and> requestCache (fst (snd (callTool cfg0 envDown ''smart_advisor'' askGoogle initialState))) = []
   \<and> map_of (requestCache (fst (snd (callTool cfg0 envDown ''smart_advisor'' askGoogle initialState))))
        (cacheKeyOf envDown askGoogle) = None"
proof -
  have c: "code (SmartAdvisorError ''Failed after 3 attempts: timeout'' ''MAX_RETRIES_EXCEEDED''
            (Some (Error ''timeout''))) = Some ''CLIENT_ERROR'' \<or>
           code (SmartAdvisorError ''Failed after 3 attempts: timeout'' ''MAX_RETRIES_EXCEEDED''
            (Some (Error ''timeout''))) = Some ''MAX_RETRIES_EXCEEDED''"
    by simp
  have e: "requestCache (snd (getCachedResponse cfg0 (nowCacheGet envDown)
             (cacheKeyOf envDown askGoogle) initialState)) = []"
    by (simp add: getCachedResponse_def initialState_def Let_def)
  have i: "\<forall>kv\<in>set (requestCache initialState). response (snd kv) \<noteq> []"
    by (simp add: initialState_def)
  from failed_dispatch_not_cached[OF callTool_envDown_google c] e i callTool_envDown_google
  show ?thesis by simp
qed
end
